theory Spec2Isabelle
  imports Complex_Main "HOL-Library.AList"
begin

section \<open>PingPals master: data model\<close>

text \<open>
  The development embeds the coordination engine of \<^verbatim>\<open>class UptimeMaster\<close>
  (the version of \<^verbatim>\<open>src/index.ts\<close> that keeps a per-slave result cache, a daily
  downtime log and a consensus threshold) together with \<^verbatim>\<open>src/types.ts\<close>.

  Conventions of the embedding:
  \<^item> A TypeScript \<^verbatim>\<open>Map\<close> keeps insertion order, so it is an association list:
    \<^verbatim>\<open>get\<close> is \<open>map_of\<close>, \<^verbatim>\<open>set\<close> is \<open>AList.update\<close> (overwrite in place, else
    append), \<^verbatim>\<open>delete\<close> is \<open>AList.delete\<close>.
  \<^item> Timestamps are integer milliseconds since the epoch (\<^verbatim>\<open>Date.now()\<close>). Every
    operation receives the clock reading \<open>now\<close> as an argument; all clock reads made
    while one operation runs return that reading.
  \<^item> \<^verbatim>\<open>distributeService\<close> is an \<^verbatim>\<open>async\<close> function. \<open>distributeService\<close> is the
    call run to its end with nothing in between, as when it is awaited;
    \<open>distributeServiceSync\<close> is the part up to its first \<^verbatim>\<open>await\<close>, which is all
    that runs inside the health sweep, which does not await it, and \<open>resumeDistribute\<close>
    is the step the call takes once the request it awaits has settled. Interleaving of
    other request handlers with an awaited call is not modelled.
  \<^item> A date string \<^verbatim>\<open>YYYY-MM-DD\<close> (UTC) is represented by its day number
    \<open>timestamp div 86400000\<close>. For four-digit years the strings compare, by
    \<^verbatim>\<open>===\<close>, \<^verbatim>\<open>>=\<close> and \<^verbatim>\<open>localeCompare\<close>, exactly as the day numbers do, and
    \<^verbatim>\<open>new Date(date).getTime()\<close> is the day number times 86400000. The time
    zone of the process is a parameter \<open>tz\<close> of every operation that prunes the
    ledger.
  \<^item> Percentages are real numbers; a division by zero, which in JavaScript yields
    \<^verbatim>\<open>NaN\<close> or an infinity, is the value \<open>NotFinite\<close>. Rounding of doubles is not
    modelled.
  \<^item> Outbound effects (alerts, warnings, requests sent to slaves) are collected in a
    list of events, in the order in which the code issues them. Info-level and
    error-level log lines and \<^verbatim>\<open>saveState\<close> are not modelled. Whether a request to
    a slave throws is an input of the model (\<open>deleteOk\<close>).
  \<^item> A thrown \<^verbatim>\<open>Error\<close> is a value of type \<open>master_error\<close>; an operation that can
    throw returns the error or the result together with the state it leaves behind.
\<close>

datatype MonitorType = http | icmp

datatype CurrentStatus = UP | DOWN

datatype jsnum = Num real | NotFinite

record SlaveResult =
  success :: bool
  timestamp :: int
  error :: "string option"

record ClosedIncident =
  inc_start :: int
  inc_end :: int
  inc_error :: string

record DailyDowntime =
  date :: int
  downtimeMs :: int
  incidents :: "ClosedIncident list"

record OpenIncident =
  start :: int
  cur_error :: string

record ServiceStatus =
  sid :: string
  name :: string
  stype :: MonitorType
  url :: "string option"
  host :: "string option"
  interval :: int
  timeout :: int
  createdAt :: int
  lastCheck :: int
  lastStatus :: CurrentStatus
  uptimePercentage :: jsnum
  uptimePercentage30d :: jsnum
  assignedSlaves :: "string list"
  currentIncident :: "OpenIncident option"
  downtimeLog :: "DailyDowntime list"
  slaveResults :: "(string \<times> SlaveResult) list"

record SlaveInfo =
  slave_name :: string
  lastSeen :: int
  slave_services :: "string list"

record MonitoringResult =
  r_serviceId :: string
  r_timestamp :: int
  r_success :: bool
  r_duration :: int
  r_error :: "string option"

datatype event =
    WarnNoActiveSlaves string
  | WarnNoValidResults string
  | NotifyAssign string string
  | NotifyUnassign string string
  | AlertDown string int string
  | AlertUp string int int
  | WarnSlaveDown string
  | WarnSlaveRemoved string
  | AlertSlaveOffline string string

datatype master_error =
    ServiceNotFound string
  | CannotUpdateHost
  | CannotUpdateUrl

record master =
  services :: "(string \<times> ServiceStatus) list"
  slaves :: "(string \<times> SlaveInfo) list"

definition MIN_DOWNTIME_MS :: int where
  "MIN_DOWNTIME_MS = 10000"

definition CONSENSUS_THRESHOLD :: real where
  "CONSENSUS_THRESHOLD = 0.75"

definition STALE_RESULT_THRESHOLD :: int where
  "STALE_RESULT_THRESHOLD = 300000"

definition DAYS_TO_KEEP :: int where
  "DAYS_TO_KEEP = 30"

definition MS_PER_DAY :: int where
  "MS_PER_DAY = 24 * 60 * 60 * 1000"

section \<open>Consensus (calculateServiceStatus)\<close>

text \<open>\<^verbatim>\<open>validResults\<close>: the cache entries whose age is below the stale threshold.\<close>

definition validResults :: "ServiceStatus \<Rightarrow> int \<Rightarrow> (string \<times> SlaveResult) list" where
  "validResults service currentTime =
     filter (\<lambda>(_, result). currentTime - timestamp result < STALE_RESULT_THRESHOLD)
       (slaveResults service)"

definition totalValidResults :: "ServiceStatus \<Rightarrow> int \<Rightarrow> nat" where
  "totalValidResults service currentTime = length (validResults service currentTime)"

definition successfulResults :: "ServiceStatus \<Rightarrow> int \<Rightarrow> nat" where
  "successfulResults service currentTime =
     length (filter (\<lambda>(_, result). success result) (validResults service currentTime))"

text \<open>
  The body of \<^verbatim>\<open>calculateServiceStatus\<close> once the service has been looked up. The
  ratio is the exact quotient; the comparison of the rounded double with 0.75 agrees with
  it for every cache of fewer than \<open>2 ^ 52\<close> entries.
\<close>

definition serviceConsensus :: "ServiceStatus \<Rightarrow> int \<Rightarrow> CurrentStatus" where
  "serviceConsensus service currentTime =
     (if totalValidResults service currentTime = 0 then lastStatus service
      else
        let consensusRatio =
              real (successfulResults service currentTime) /
              real (totalValidResults service currentTime)
        in if consensusRatio \<ge> CONSENSUS_THRESHOLD then UP else DOWN)"

definition calculateServiceStatus :: "master \<Rightarrow> string \<Rightarrow> int \<Rightarrow> master_error + CurrentStatus" where
  "calculateServiceStatus st serviceId currentTime =
     (case map_of (services st) serviceId of
        None \<Rightarrow> Inl (ServiceNotFound serviceId)
      | Some service \<Rightarrow> Inr (serviceConsensus service currentTime))"

section \<open>Incident tracking\<close>

definition getDateString :: "int \<Rightarrow> int" where
  "getDateString ts = ts div MS_PER_DAY"

definition dateToTime :: "int \<Rightarrow> int" where
  "dateToTime d = d * MS_PER_DAY"

text \<open>
  The time zone of the process, as ECMAScript sees it: \<open>utcOffset tz t\<close> is the offset
  of local time from UTC, in ms, at the instant \<open>t\<close> (\<^verbatim>\<open>LocalTZA(t, true)\<close>), and
  \<open>localOffset tz w\<close> is the offset that applies to the local clock reading \<open>w\<close>
  (\<^verbatim>\<open>LocalTZA(w, false)\<close>). \<^verbatim>\<open>getDate\<close> and \<^verbatim>\<open>setDate\<close> work on the local clock
  reading: \<^verbatim>\<open>setDate(getDate() - 30)\<close> moves the reading back by 30 days of 24 hours
  and converts it to an instant again. \<^verbatim>\<open>toISOString\<close>, and so \<open>getDateString\<close>, is
  in UTC.
\<close>

record TimeZone =
  utcOffset :: "int \<Rightarrow> int"
  localOffset :: "int \<Rightarrow> int"

definition localTime :: "TimeZone \<Rightarrow> int \<Rightarrow> int" where
  "localTime tz t = t + utcOffset tz t"

definition utcTime :: "TimeZone \<Rightarrow> int \<Rightarrow> int" where
  "utcTime tz w = w - localOffset tz w"

text \<open>\<^verbatim>\<open>cutoffDate.getTime()\<close> after \<^verbatim>\<open>cutoffDate.setDate(cutoffDate.getDate() - 30)\<close>\<close>

definition cutoffTime :: "TimeZone \<Rightarrow> int \<Rightarrow> int" where
  "cutoffTime tz now = utcTime tz (localTime tz now - DAYS_TO_KEEP * MS_PER_DAY)"

definition pruneOldDowntimeLogs :: "TimeZone \<Rightarrow> ServiceStatus \<Rightarrow> int \<Rightarrow> ServiceStatus" where
  "pruneOldDowntimeLogs tz service now =
     (let cutoffDateStr = getDateString (cutoffTime tz now)
      in service\<lparr>downtimeLog := filter (\<lambda>log. date log \<ge> cutoffDateStr) (downtimeLog service)\<rparr>)"

text \<open>
  \<^verbatim>\<open>getDailyDowntime\<close> returns a reference to the day's entry, creating it (and
  re-sorting the log, stably) when it is missing. The model returns the service after
  the call; the reference is the first entry of that date, which the caller then
  mutates through \<open>modifyFirst\<close>.
\<close>

definition getDailyDowntime :: "ServiceStatus \<Rightarrow> int \<Rightarrow> ServiceStatus" where
  "getDailyDowntime service d =
     (case find (\<lambda>l. date l = d) (downtimeLog service) of
        Some _ \<Rightarrow> service
      | None \<Rightarrow>
          service\<lparr>downtimeLog :=
            sort_key date (downtimeLog service @ [\<lparr>date = d, downtimeMs = 0, incidents = []\<rparr>])\<rparr>)"

fun modifyFirst :: "('a \<Rightarrow> bool) \<Rightarrow> ('a \<Rightarrow> 'a) \<Rightarrow> 'a list \<Rightarrow> 'a list" where
  "modifyFirst P f [] = []"
| "modifyFirst P f (x # xs) = (if P x then f x # xs else x # modifyFirst P f xs)"

definition jsPercent :: "int \<Rightarrow> int \<Rightarrow> jsnum" where
  "jsPercent numer denom =
     (if denom = 0 then NotFinite else Num (real_of_int numer / real_of_int denom * 100))"

definition updateUptimePercentages :: "ServiceStatus \<Rightarrow> int \<Rightarrow> ServiceStatus" where
  "updateUptimePercentages service now =
     (let thirtyDaysAgo = now - 30 * 24 * 60 * 60 * 1000;
          totalDowntime = sum_list (map downtimeMs (downtimeLog service));
          totalTime = now - createdAt service;
          recentDowntime =
            sum_list (map downtimeMs
              (filter (\<lambda>log. dateToTime (date log) \<ge> thirtyDaysAgo) (downtimeLog service)));
          thirtyDayTime = min totalTime (30 * 24 * 60 * 60 * 1000)
      in service\<lparr>uptimePercentage := jsPercent (totalTime - totalDowntime) totalTime,
                 uptimePercentage30d := jsPercent (thirtyDayTime - recentDowntime) thirtyDayTime\<rparr>)"

fun joinWith :: "string \<Rightarrow> string list \<Rightarrow> string" where
  "joinWith sep [] = []"
| "joinWith sep [x] = x"
| "joinWith sep (x # y # ys) = x @ sep @ joinWith sep (y # ys)"

definition hasErrorText :: "SlaveResult \<Rightarrow> bool" where
  "hasErrorText result = (case error result of None \<Rightarrow> False | Some e \<Rightarrow> e \<noteq> [])"

definition getSlaveErrors :: "ServiceStatus \<Rightarrow> string" where
  "getSlaveErrors service =
     (let errors = joinWith '', ''
            (map (\<lambda>(slaveId, result). slaveId @ '': '' @ (case error result of None \<Rightarrow> [] | Some e \<Rightarrow> e))
               (filter (\<lambda>(_, result). \<not> success result \<and> hasErrorText result)
                  (slaveResults service)))
      in if errors = [] then ''No specific error details available'' else errors)"

definition recordIncident ::
  "TimeZone \<Rightarrow> ServiceStatus \<Rightarrow> OpenIncident \<Rightarrow> int \<Rightarrow> ServiceStatus" where
  "recordIncident tz service inc currentTime =
     (let currentDate = getDateString currentTime;
          downtimeDuration = currentTime - start inc;
          service1 = getDailyDowntime service currentDate;
          service2 = service1\<lparr>downtimeLog :=
            modifyFirst (\<lambda>l. date l = currentDate)
              (\<lambda>dailyLog. dailyLog\<lparr>
                 incidents := incidents dailyLog @
                   [\<lparr>inc_start = start inc, inc_end = currentTime, inc_error = cur_error inc\<rparr>],
                 downtimeMs := downtimeMs dailyLog + downtimeDuration\<rparr>)
              (downtimeLog service1)\<rparr>
      in updateUptimePercentages (pruneOldDowntimeLogs tz service2 currentTime) currentTime)"

definition handleStatusChange ::
  "TimeZone \<Rightarrow> ServiceStatus \<Rightarrow> CurrentStatus \<Rightarrow> int \<Rightarrow> ServiceStatus \<times> event list" where
  "handleStatusChange tz service newStatus currentTime =
     (if newStatus = DOWN \<and> lastStatus service = UP then
        let inc = \<lparr>start = currentTime, cur_error = getSlaveErrors service\<rparr>
        in (service\<lparr>currentIncident := Some inc, lastStatus := newStatus\<rparr>,
            [AlertDown (name service) currentTime
               (if cur_error inc = [] then ''No specific error details available''
                else cur_error inc)])
      else if newStatus = UP \<and> lastStatus service = DOWN \<and> currentIncident service \<noteq> None then
        (case currentIncident service of
           Some inc \<Rightarrow>
             let downtimeDuration = currentTime - start inc
             in if downtimeDuration \<ge> MIN_DOWNTIME_MS then
                  ((recordIncident tz service inc currentTime)
                     \<lparr>currentIncident := None, lastStatus := newStatus\<rparr>,
                   [AlertUp (name service) currentTime downtimeDuration])
                else (service\<lparr>currentIncident := None, lastStatus := newStatus\<rparr>, [])
         | None \<Rightarrow> (service\<lparr>lastStatus := newStatus\<rparr>, []))
      else (service\<lparr>lastStatus := newStatus\<rparr>, []))"

text \<open>
  The body of \<^verbatim>\<open>handleReport\<close> for the service found: store the report in the
  cache, evaluate the consensus, run the state machine when the status differs, stamp
  \<^verbatim>\<open>lastCheck\<close>.
\<close>

definition storeReport :: "ServiceStatus \<Rightarrow> string \<Rightarrow> MonitoringResult \<Rightarrow> ServiceStatus" where
  "storeReport service slaveId report =
     service\<lparr>slaveResults :=
       AList.update slaveId
         \<lparr>success = r_success report, timestamp = r_timestamp report, error = r_error report\<rparr>
         (slaveResults service)\<rparr>"

definition reportService ::
  "TimeZone \<Rightarrow> ServiceStatus \<Rightarrow> string \<Rightarrow> MonitoringResult \<Rightarrow> int \<Rightarrow>
   ServiceStatus \<times> event list" where
  "reportService tz service slaveId report now =
     (let service1 = storeReport service slaveId report;
          newStatus = serviceConsensus service1 now;
          warn = (if totalValidResults service1 now = 0
                  then [WarnNoValidResults (r_serviceId report)] else []);
          changed =
            (if lastStatus service1 \<noteq> newStatus then handleStatusChange tz service1 newStatus now
             else (service1, []))
      in ((fst changed)\<lparr>lastCheck := now\<rparr>, warn @ snd changed))"

definition handleReport ::
  "TimeZone \<Rightarrow> master \<Rightarrow> string \<Rightarrow> MonitoringResult \<Rightarrow> int \<Rightarrow>
   (master_error + unit) \<times> master \<times> event list" where
  "handleReport tz st slaveId report now =
     (case map_of (services st) (r_serviceId report) of
        None \<Rightarrow> (Inl (ServiceNotFound (r_serviceId report)), st, [])
      | Some service \<Rightarrow>
          let (service', evs) = reportService tz service slaveId report now
          in (Inr (), st\<lparr>services := AList.update (r_serviceId report) service' (services st)\<rparr>, evs))"

section \<open>Service creation and editing\<close>

record ServiceConfigInput =
  c_name :: string
  c_type :: MonitorType
  c_url :: "string option"
  c_host :: "string option"
  c_interval :: int
  c_timeout :: int

text \<open>
  A partial update: \<open>None\<close> is an absent key. \<^verbatim>\<open>'host' in updates\<close> is
  \<open>u_host updates \<noteq> None\<close>; the truthiness tests of the source skip an empty name
  and a zero interval or timeout.
\<close>

record ServiceUpdates =
  u_name :: "string option"
  u_url :: "string option"
  u_host :: "string option"
  u_interval :: "int option"
  u_timeout :: "int option"

text \<open>The object literal built by \<^verbatim>\<open>addService\<close>; \<open>newId\<close> is the random UUID.\<close>

definition newService :: "ServiceConfigInput \<Rightarrow> string \<Rightarrow> int \<Rightarrow> ServiceStatus" where
  "newService config newId now =
     \<lparr>sid = newId, name = c_name config, stype = c_type config,
      url = c_url config, host = c_host config,
      interval = c_interval config, timeout = c_timeout config,
      createdAt = now, lastCheck = 0, lastStatus = UP,
      uptimePercentage = Num 100, uptimePercentage30d = Num 100,
      assignedSlaves = [], currentIncident = None, downtimeLog = [], slaveResults = []\<rparr>"

definition applyUpdates :: "ServiceStatus \<Rightarrow> ServiceUpdates \<Rightarrow> ServiceStatus" where
  "applyUpdates service updates =
     (let s1 = (case u_name updates of
                  Some n \<Rightarrow> if n \<noteq> [] then service\<lparr>name := n\<rparr> else service
                | None \<Rightarrow> service);
          s2 = (case u_url updates of
                  Some u \<Rightarrow> if stype s1 = http then s1\<lparr>url := Some u\<rparr> else s1
                | None \<Rightarrow> s1);
          s3 = (case u_host updates of
                  Some h \<Rightarrow> if stype s2 = icmp then s2\<lparr>host := Some h\<rparr> else s2
                | None \<Rightarrow> s2);
          s4 = (case u_interval updates of
                  Some i \<Rightarrow> if i \<noteq> 0 then s3\<lparr>interval := i\<rparr> else s3
                | None \<Rightarrow> s3)
      in (case u_timeout updates of
            Some t \<Rightarrow> if t \<noteq> 0 then s4\<lparr>timeout := t\<rparr> else s4
          | None \<Rightarrow> s4))"

section \<open>Distribution of a service over the active slaves\<close>

definition activeSlaveIds :: "(string \<times> SlaveInfo) list \<Rightarrow> int \<Rightarrow> string list" where
  "activeSlaveIds slaveMap now =
     map fst (filter (\<lambda>(_, slave). now - lastSeen slave < 60000) slaveMap)"

text \<open>\<^verbatim>\<open>this.slaves.get(a)?.services.length || 0\<close>\<close>

definition serviceCount :: "(string \<times> SlaveInfo) list \<Rightarrow> string \<Rightarrow> nat" where
  "serviceCount slaveMap a =
     (case map_of slaveMap a of None \<Rightarrow> 0 | Some slave \<Rightarrow> length (slave_services slave))"

text \<open>The callback given to \<^verbatim>\<open>reduce\<close>: the earlier slave wins a tie.\<close>

definition fewestOf :: "(string \<times> SlaveInfo) list \<Rightarrow> string \<Rightarrow> string \<Rightarrow> string" where
  "fewestOf slaveMap a b = (if serviceCount slaveMap a \<le> serviceCount slaveMap b then a else b)"

text \<open>
  The \<^verbatim>\<open>while\<close> loop of \<^verbatim>\<open>distributeService\<close>. \<^verbatim>\<open>reduce\<close> without an initial
  value folds from the first element; the empty list is excluded by the \<^verbatim>\<open>break\<close>.
\<close>

function assignLoop ::
  "(string \<times> SlaveInfo) list \<Rightarrow> string list \<Rightarrow> string list \<Rightarrow> string list" where
  "assignLoop slaveMap activeSlaves assigned =
     (if length assigned < min 3 (length activeSlaves) then
        (case filter (\<lambda>i. i \<notin> set assigned) activeSlaves of
           [] \<Rightarrow> assigned
         | a # rest \<Rightarrow>
             assignLoop slaveMap activeSlaves (assigned @ [foldl (fewestOf slaveMap) a rest]))
      else assigned)"
  by pat_completeness auto
termination
  by (relation "measure (\<lambda>(_, activeSlaves, assigned). min 3 (length activeSlaves) - length assigned)")
     auto

declare assignLoop.simps [simp del]

text \<open>First pass over the assigned slaves: add the service to a slave's list.\<close>

fun addToAssigned ::
  "string \<Rightarrow> string list \<Rightarrow> (string \<times> SlaveInfo) list \<Rightarrow> (string \<times> SlaveInfo) list" where
  "addToAssigned svcId [] slaveMap = slaveMap"
| "addToAssigned svcId (slaveId # rest) slaveMap =
     addToAssigned svcId rest
       (case map_of slaveMap slaveId of
          None \<Rightarrow> slaveMap
        | Some slave \<Rightarrow>
            if svcId \<in> set (slave_services slave) then slaveMap
            else AList.update slaveId
                   (slave\<lparr>slave_services := slave_services slave @ [svcId]\<rparr>) slaveMap)"

text \<open>
  Second pass over every slave: one that is not assigned but lists the service is sent
  a DELETE request; \<open>deleteOk slaveId\<close> says that this request did not throw, and only
  then is the service taken off the slave's list.
\<close>

definition removeFromUnassigned ::
  "(string \<Rightarrow> bool) \<Rightarrow> string \<Rightarrow> string list \<Rightarrow> (string \<times> SlaveInfo) list \<Rightarrow>
   (string \<times> SlaveInfo) list" where
  "removeFromUnassigned deleteOk svcId assigned slaveMap =
     map (\<lambda>(slaveId, slave).
            if slaveId \<notin> set assigned \<and> svcId \<in> set (slave_services slave) \<and> deleteOk slaveId
            then (slaveId, slave\<lparr>slave_services := filter (\<lambda>s. s \<noteq> svcId) (slave_services slave)\<rparr>)
            else (slaveId, slave))
         slaveMap"

definition distributeEvents ::
  "string \<Rightarrow> string list \<Rightarrow> (string \<times> SlaveInfo) list \<Rightarrow> event list" where
  "distributeEvents svcId assigned slaveMap =
     map (\<lambda>slaveId. NotifyAssign slaveId svcId)
       (filter (\<lambda>slaveId. map_of slaveMap slaveId \<noteq> None) assigned) @
     map (\<lambda>(slaveId, _). NotifyUnassign slaveId svcId)
       (filter (\<lambda>(slaveId, slave). slaveId \<notin> set assigned \<and> svcId \<in> set (slave_services slave))
          slaveMap)"

definition distributeService ::
  "(string \<Rightarrow> bool) \<Rightarrow> (string \<times> SlaveInfo) list \<Rightarrow> ServiceStatus \<Rightarrow> int \<Rightarrow>
   ServiceStatus \<times> (string \<times> SlaveInfo) list \<times> event list" where
  "distributeService deleteOk slaveMap service now =
     (let activeSlaves = activeSlaveIds slaveMap now
      in if length activeSlaves = 0 then (service, slaveMap, [WarnNoActiveSlaves (sid service)])
         else
           let kept = filter (\<lambda>i. i \<in> set activeSlaves) (assignedSlaves service);
               assigned = assignLoop slaveMap activeSlaves kept;
               slaveMap1 = addToAssigned (sid service) assigned slaveMap
           in (service\<lparr>assignedSlaves := assigned\<rparr>,
               removeFromUnassigned deleteOk (sid service) assigned slaveMap1,
               distributeEvents (sid service) assigned slaveMap1))"

text \<open>
  The callers hand \<^verbatim>\<open>distributeService\<close> a service object that lives in the service
  table; \<open>distributeKey\<close> runs it on the entry stored under a key and stores the result.
\<close>

definition distributeKey ::
  "(string \<Rightarrow> bool) \<Rightarrow> int \<Rightarrow> string \<Rightarrow> master \<times> event list \<Rightarrow> master \<times> event list" where
  "distributeKey deleteOk now key acc =
     (case acc of (st, evs) \<Rightarrow>
        (case map_of (services st) key of
           None \<Rightarrow> (st, evs)
         | Some service \<Rightarrow>
             (case distributeService deleteOk (slaves st) service now of
                (service', slaveMap', evs') \<Rightarrow>
                  (st\<lparr>services := AList.update key service' (services st), slaves := slaveMap'\<rparr>,
                   evs @ evs'))))"

definition addService ::
  "(string \<Rightarrow> bool) \<Rightarrow> master \<Rightarrow> ServiceConfigInput \<Rightarrow> string \<Rightarrow> int \<Rightarrow> master \<times> event list" where
  "addService deleteOk st config newId now =
     distributeKey deleteOk now newId
       (st\<lparr>services := AList.update newId (newService config newId now) (services st)\<rparr>, [])"

definition editService ::
  "(string \<Rightarrow> bool) \<Rightarrow> master \<Rightarrow> string \<Rightarrow> ServiceUpdates \<Rightarrow> int \<Rightarrow>
   (master_error + ServiceStatus) \<times> master \<times> event list" where
  "editService deleteOk st key updates now =
     (case map_of (services st) key of
        None \<Rightarrow> (Inl (ServiceNotFound key), st, [])
      | Some service \<Rightarrow>
          if stype service = http \<and> u_host updates \<noteq> None then (Inl CannotUpdateHost, st, [])
          else if stype service = icmp \<and> u_url updates \<noteq> None then (Inl CannotUpdateUrl, st, [])
          else
            (case distributeKey deleteOk now key
                    (st\<lparr>services := AList.update key (applyUpdates service updates) (services st)\<rparr>, [])
             of (st', evs) \<Rightarrow>
               (case map_of (services st') key of
                  Some service' \<Rightarrow> (Inr service', st', evs)
                | None \<Rightarrow> (Inl (ServiceNotFound key), st', evs))))"

section \<open>Heartbeats and the health sweep\<close>

definition needsRedistribution ::
  "master \<Rightarrow> string \<Rightarrow> string list \<Rightarrow> string \<Rightarrow> ServiceStatus \<Rightarrow> bool" where
  "needsRedistribution st slaveId claimed key service =
     (length (assignedSlaves service) = 0 \<or>
      (slaveId \<in> set (assignedSlaves service) \<and> key \<notin> set claimed) \<or>
      length (assignedSlaves service) < min 3 (length (slaves st)))"

definition heartbeatStep ::
  "(string \<Rightarrow> bool) \<Rightarrow> int \<Rightarrow> string \<Rightarrow> string list \<Rightarrow> string \<Rightarrow>
   master \<times> event list \<Rightarrow> master \<times> event list" where
  "heartbeatStep deleteOk now slaveId claimed key acc =
     (case map_of (services (fst acc)) key of
        None \<Rightarrow> acc
      | Some service \<Rightarrow>
          if needsRedistribution (fst acc) slaveId claimed key service
          then distributeKey deleteOk now key acc else acc)"

definition handleHeartbeat ::
  "(string \<Rightarrow> bool) \<Rightarrow> master \<Rightarrow> string \<Rightarrow> string \<Rightarrow> string list \<Rightarrow> int \<Rightarrow> master \<times> event list" where
  "handleHeartbeat deleteOk st slaveId slaveName claimed now =
     (let st1 = st\<lparr>slaves := AList.update slaveId
                   \<lparr>slave_name = slaveName, lastSeen = now, slave_services = claimed\<rparr> (slaves st)\<rparr>
      in fold (heartbeatStep deleteOk now slaveId claimed) (map fst (services st1)) (st1, []))"

text \<open>
  \<^verbatim>\<open>checkSlaveHealth\<close> calls \<^verbatim>\<open>distributeService\<close> without awaiting it. Such a call
  runs to its first \<^verbatim>\<open>await\<close> and is then suspended until the caller has returned:
  it computes and stores the assignment, adds the service to the lists of the assigned
  slaves and sends them the POST requests, and walks the slave table up to the first
  slave that is not assigned but lists the service, to which it sends the DELETE request
  it then awaits. What is left to do is recorded as a \<open>PendingDelete\<close>: the awaited
  slave, the slave object it holds, and the keys the walk has yet to visit. When no slave
  is to be unassigned the call awaits only its POST requests and changes nothing more.
\<close>

record PendingDelete =
  p_service :: string
  p_assigned :: "string list"
  p_slaveId :: string
  p_slave :: SlaveInfo
  p_rest :: "string list"

definition toUnassign :: "string \<Rightarrow> string list \<Rightarrow> string \<times> SlaveInfo \<Rightarrow> bool" where
  "toUnassign svcId assigned entry =
     (fst entry \<notin> set assigned \<and> svcId \<in> set (slave_services (snd entry)))"

definition distributeServiceSync ::
  "(string \<times> SlaveInfo) list \<Rightarrow> ServiceStatus \<Rightarrow> int \<Rightarrow>
   ServiceStatus \<times> (string \<times> SlaveInfo) list \<times> event list \<times> PendingDelete list" where
  "distributeServiceSync slaveMap service now =
     (let activeSlaves = activeSlaveIds slaveMap now
      in if length activeSlaves = 0
         then (service, slaveMap, [WarnNoActiveSlaves (sid service)], [])
         else
           let kept = filter (\<lambda>i. i \<in> set activeSlaves) (assignedSlaves service);
               assigned = assignLoop slaveMap activeSlaves kept;
               slaveMap1 = addToAssigned (sid service) assigned slaveMap;
               posts = map (\<lambda>slaveId. NotifyAssign slaveId (sid service))
                         (filter (\<lambda>slaveId. map_of slaveMap1 slaveId \<noteq> None) assigned)
           in (case dropWhile (\<lambda>entry. \<not> toUnassign (sid service) assigned entry) slaveMap1 of
                 [] \<Rightarrow> (service\<lparr>assignedSlaves := assigned\<rparr>, slaveMap1, posts, [])
               | entry # rest \<Rightarrow>
                   (service\<lparr>assignedSlaves := assigned\<rparr>, slaveMap1,
                    posts @ [NotifyUnassign (fst entry) (sid service)],
                    [\<lparr>p_service = sid service, p_assigned = assigned, p_slaveId = fst entry,
                      p_slave = snd entry, p_rest = map fst rest\<rparr>])))"

text \<open>
  The suspended call goes on when its DELETE request has settled, after the caller has
  returned. If the request did not throw, the call takes the service off the list of the
  slave object it holds and stores the object under its key with \<^verbatim>\<open>this.slaves.set\<close>:
  this puts the slave back into the table, at its end, if the slave has been deleted from
  the table in the meantime. The object is the one in the table while the key is there
  (no heartbeat has replaced it), else the one recorded at suspension. \<open>resumeDistribute\<close>
  is this step on the table, up to the next \<^verbatim>\<open>await\<close> of the call; the rest of the walk
  is not modelled.
\<close>

definition unassignFrom ::
  "(string \<Rightarrow> bool) \<Rightarrow> string \<Rightarrow> string \<Rightarrow> SlaveInfo \<Rightarrow> (string \<times> SlaveInfo) list \<Rightarrow>
   (string \<times> SlaveInfo) list" where
  "unassignFrom deleteOk svcId slaveId slave slaveMap =
     (if deleteOk slaveId
      then AList.update slaveId
             (slave\<lparr>slave_services := filter (\<lambda>s. s \<noteq> svcId) (slave_services slave)\<rparr>) slaveMap
      else slaveMap)"

definition resumeDistribute ::
  "(string \<Rightarrow> bool) \<Rightarrow> PendingDelete \<Rightarrow> (string \<times> SlaveInfo) list \<Rightarrow> (string \<times> SlaveInfo) list" where
  "resumeDistribute deleteOk p slaveMap =
     (let held = (case map_of slaveMap (p_slaveId p) of None \<Rightarrow> p_slave p | Some slave \<Rightarrow> slave)
      in unassignFrom deleteOk (p_service p) (p_slaveId p) held slaveMap)"

definition distributeKeySync ::
  "int \<Rightarrow> string \<Rightarrow> master \<times> event list \<times> PendingDelete list \<Rightarrow>
   master \<times> event list \<times> PendingDelete list" where
  "distributeKeySync now key acc =
     (case acc of (st, evs, pending) \<Rightarrow>
        (case map_of (services st) key of
           None \<Rightarrow> acc
         | Some service \<Rightarrow>
             (case distributeServiceSync (slaves st) service now of
                (service', slaveMap', evs', pending') \<Rightarrow>
                  (st\<lparr>services := AList.update key service' (services st), slaves := slaveMap'\<rparr>,
                   evs @ evs', pending @ pending'))))"

text \<open>
  One iteration of the loop of \<^verbatim>\<open>checkSlaveHealth\<close>, for the slave stored under
  \<open>slaveId\<close>: the list of its services is the array the \<^verbatim>\<open>for ... of\<close> started on.
  The sweep itself is synchronous: it returns the table as it leaves it, the events it
  caused, and the calls of \<^verbatim>\<open>distributeService\<close> it left suspended.
\<close>

definition sweepSlave ::
  "int \<Rightarrow> string \<Rightarrow> master \<times> event list \<times> PendingDelete list \<Rightarrow>
   master \<times> event list \<times> PendingDelete list" where
  "sweepSlave now slaveId acc =
     (case map_of (slaves (fst acc)) slaveId of
        None \<Rightarrow> acc
      | Some info \<Rightarrow>
          if now - lastSeen info > 60000 then
            (case fold (distributeKeySync now) (slave_services info)
                    (fst acc, fst (snd acc) @ [WarnSlaveDown slaveId], snd (snd acc))
             of (st1, evs1, pending1) \<Rightarrow>
               if now - lastSeen info > 300000 then
                 (st1\<lparr>slaves := AList.delete slaveId (slaves st1)\<rparr>,
                  evs1 @ [WarnSlaveRemoved slaveId, AlertSlaveOffline slaveId (slave_name info)],
                  pending1)
               else (st1, evs1, pending1))
          else acc)"

definition checkSlaveHealth ::
  "master \<Rightarrow> int \<Rightarrow> master \<times> event list \<times> PendingDelete list" where
  "checkSlaveHealth st now = fold (sweepSlave now) (map fst (slaves st)) (st, [], [])"

section \<open>Histories of one service\<close>

text \<open>
  What can happen to one service after \<^verbatim>\<open>addService\<close> built it: a report is handled
  at some clock reading, an edit changes its configuration, a distribution replaces its
  assignment. \<open>runOps\<close> replays such a history; \<open>clockFrom\<close> says that the clock
  readings of the history, starting with the one at creation, never go backwards.
\<close>

datatype service_op =
    OpReport string MonitoringResult int
  | OpEdit ServiceUpdates
  | OpAssign "string list"

fun applyOp :: "TimeZone \<Rightarrow> ServiceStatus \<Rightarrow> service_op \<Rightarrow> ServiceStatus" where
  "applyOp tz service (OpReport slaveId report now) =
     fst (reportService tz service slaveId report now)"
| "applyOp tz service (OpEdit updates) = applyUpdates service updates"
| "applyOp tz service (OpAssign xs) = service\<lparr>assignedSlaves := xs\<rparr>"

definition runOps :: "TimeZone \<Rightarrow> ServiceStatus \<Rightarrow> service_op list \<Rightarrow> ServiceStatus" where
  "runOps tz service ops = foldl (applyOp tz) service ops"

fun clockFrom :: "int \<Rightarrow> service_op list \<Rightarrow> bool" where
  "clockFrom t [] = True"
| "clockFrom t (OpReport slaveId report now # ops) = (t \<le> now \<and> clockFrom now ops)"
| "clockFrom t (OpEdit updates # ops) = clockFrom t ops"
| "clockFrom t (OpAssign xs # ops) = clockFrom t ops"

section \<open>Auxiliary notions and example states\<close>

subsection \<open>Notions used in the statements and proofs\<close>

text \<open>The service with every stale observation taken out of its cache.\<close>

definition freshOnly :: "ServiceStatus \<Rightarrow> int \<Rightarrow> ServiceStatus" where
  "freshOnly service now = service\<lparr>slaveResults :=
     filter (\<lambda>(_, result). now - timestamp result < 300000) (slaveResults service)\<rparr>"

text \<open>The ledger record of an incident that ends now, and a day's entry with it added.\<close>

definition closeIncident :: "OpenIncident \<Rightarrow> int \<Rightarrow> ClosedIncident" where
  "closeIncident inc now = \<lparr>inc_start = start inc, inc_end = now, inc_error = cur_error inc\<rparr>"

definition addToDay :: "OpenIncident \<Rightarrow> int \<Rightarrow> DailyDowntime \<Rightarrow> DailyDowntime" where
  "addToDay inc now dailyLog =
     dailyLog\<lparr>incidents := incidents dailyLog @ [closeIncident inc now],
              downtimeMs := downtimeMs dailyLog + (now - start inc)\<rparr>"

text \<open>A time zone whose offsets from UTC are at most a day, as those of every zone are.\<close>

definition zoneWithinDay :: "TimeZone \<Rightarrow> bool" where
  "zoneWithinDay tz =
     (\<forall>t. \<bar>utcOffset tz t\<bar> \<le> MS_PER_DAY \<and> \<bar>localOffset tz t\<bar> \<le> MS_PER_DAY)"

text \<open>The three invariants of a service: status against open incident, the shape of the
  ledger, and the start of the open incident against the creation time.\<close>

definition statusInv :: "ServiceStatus \<Rightarrow> bool" where
  "statusInv service = (lastStatus service = DOWN \<longleftrightarrow> currentIncident service \<noteq> None)"

definition ledgerInv :: "DailyDowntime list \<Rightarrow> bool" where
  "ledgerInv ledger = (distinct (map date ledger) \<and> sorted (map date ledger))"

definition startInv :: "ServiceStatus \<Rightarrow> bool" where
  "startInv service =
     (case currentIncident service of None \<Rightarrow> True | Some inc \<Rightarrow> createdAt service \<le> start inc)"

text \<open>What the sweep can change in the slave table: identifiers, names and heartbeat times,
  in table order. The events a sweep emits itself, as opposed to the distribution it
  calls, and those it emits for one slave of a given registry.\<close>

definition registry :: "(string \<times> SlaveInfo) list \<Rightarrow> (string \<times> string \<times> int) list" where
  "registry slaveMap = map (\<lambda>(slaveId, slave). (slaveId, slave_name slave, lastSeen slave)) slaveMap"

definition isSweepEvent :: "event \<Rightarrow> bool" where
  "isSweepEvent e =
     (case e of WarnSlaveDown _ \<Rightarrow> True | WarnSlaveRemoved _ \<Rightarrow> True
      | AlertSlaveOffline _ _ \<Rightarrow> True | _ \<Rightarrow> False)"

definition sweepEvents :: "int \<Rightarrow> (string \<times> string \<times> int) list \<Rightarrow> string \<Rightarrow> event list" where
  "sweepEvents now reg slaveId =
     (case map_of reg slaveId of
        None \<Rightarrow> []
      | Some (n, seen) \<Rightarrow>
          if 60000 < now - seen then
            WarnSlaveDown slaveId #
              (if 300000 < now - seen then [WarnSlaveRemoved slaveId, AlertSlaveOffline slaveId n]
               else [])
          else [])"

definition evicted :: "int \<Rightarrow> string list \<Rightarrow> string \<times> string \<times> int \<Rightarrow> bool" where
  "evicted now ks entry = (case entry of (k, n, seen) \<Rightarrow> k \<in> set ks \<and> 300000 < now - seen)"

text \<open>A service is redistributed over the active slaves when it is stored, assigned to
  active slaves only, and to at least as many of them as the loop of
  \<^verbatim>\<open>distributeService\<close> aims at.\<close>

definition redistributed :: "string list \<Rightarrow> master \<Rightarrow> string \<Rightarrow> bool" where
  "redistributed active st key =
     (case map_of (services st) key of
        None \<Rightarrow> False
      | Some service \<Rightarrow>
          set (assignedSlaves service) \<subseteq> set active \<and>
          min 3 (length active) \<le> length (assignedSlaves service))"

subsection \<open>Example states\<close>

text \<open>
  Two time zones: UTC, and New York around the end of daylight saving time on
  2024-11-03 at 06:00 UTC (02:00 on the local clock): four hours behind UTC before,
  five hours after.
\<close>

definition utcZone :: TimeZone where
  "utcZone = \<lparr>utcOffset = (\<lambda>t. 0), localOffset = (\<lambda>w. 0)\<rparr>"

definition exNewYork :: TimeZone where
  "exNewYork =
     \<lparr>utcOffset = (\<lambda>t. if t < 1730613600000 then - 14400000 else - 18000000),
      localOffset = (\<lambda>w. if w < 1730599200000 then - 14400000 else - 18000000)\<rparr>"

text \<open>A configuration, the service made from it at time 0, a cache of four observations
  made at 399000 ms and one made at 1000 ms, and a cache of two observations.\<close>

definition exConfig :: ServiceConfigInput where
  "exConfig = \<lparr>c_name = ''web'', c_type = http, c_url = Some ''http://example.org'',
               c_host = None, c_interval = 60, c_timeout = 5\<rparr>"

definition exService :: ServiceStatus where
  "exService = newService exConfig ''s1'' 0"

definition exResult :: "bool \<Rightarrow> int \<Rightarrow> SlaveResult" where
  "exResult ok ts = \<lparr>success = ok, timestamp = ts, error = (if ok then None else Some ''timeout'')\<rparr>"

definition exQuorum :: "bool \<Rightarrow> ServiceStatus" where
  "exQuorum third = exService\<lparr>slaveResults :=
     [(''a'', exResult True 399000), (''b'', exResult True 399000),
      (''c'', exResult third 399000), (''d'', exResult False 399000),
      (''e'', exResult False 1000)]\<rparr>"

definition exStaleCache :: ServiceStatus where
  "exStaleCache = exService\<lparr>slaveResults :=
     [(''a'', exResult False 0), (''b'', exResult True 400000)]\<rparr>"

text \<open>Reports, and two histories: the service goes down at 1000 ms; it recovers at 16000 ms
  and goes down again 31 days later.\<close>

definition exFail :: "int \<Rightarrow> MonitoringResult" where
  "exFail ts = \<lparr>r_serviceId = ''s1'', r_timestamp = ts, r_success = False, r_duration = 5000,
                r_error = Some ''timeout''\<rparr>"

definition exOk :: "int \<Rightarrow> MonitoringResult" where
  "exOk ts = \<lparr>r_serviceId = ''s1'', r_timestamp = ts, r_success = True, r_duration = 20,
              r_error = None\<rparr>"

definition exDownHistory :: "service_op list" where
  "exDownHistory = [OpAssign [''a''], OpReport ''a'' (exFail 1000) 1000]"

definition exDown :: ServiceStatus where
  "exDown = runOps utcZone exService exDownHistory"

definition exOldHistory :: "service_op list" where
  "exOldHistory = exDownHistory @
     [OpReport ''a'' (exOk 16000) 16000, OpReport ''a'' (exFail 2678401000) 2678401000]"

definition exOld :: ServiceStatus where
  "exOld = runOps utcZone exService exOldHistory"

text \<open>Slave tables: a fleet of five, and the master after one heartbeat of slave 1 at time 0
  and the creation of a service at time 1000. \<open>allOk\<close>: no request to a slave throws.\<close>

definition exSlave :: "string \<Rightarrow> int \<Rightarrow> string list \<Rightarrow> SlaveInfo" where
  "exSlave n seen claimed = \<lparr>slave_name = n, lastSeen = seen, slave_services = claimed\<rparr>"

definition exFleet :: "(string \<times> SlaveInfo) list" where
  "exFleet = [(''slave1'', exSlave ''one'' 1000 [''x'', ''y'']),
              (''slave2'', exSlave ''two'' 2000 []),
              (''slave3'', exSlave ''three'' 3000 [''x'']),
              (''slave4'', exSlave ''four'' 4000 [''y'']),
              (''slave5'', exSlave ''five'' 5000 [])]"

definition allOk :: "string \<Rightarrow> bool" where
  "allOk slaveId = True"

definition exEmpty :: master where
  "exEmpty = \<lparr>services = [], slaves = []\<rparr>"

definition exAssigned :: master where
  "exAssigned =
     fst (addService allOk (fst (handleHeartbeat allOk exEmpty ''slave1'' ''one'' [] 0))
            exConfig ''s1'' 1000)"

definition exHostUpdate :: ServiceUpdates where
  "exHostUpdate = \<lparr>u_name = Some ''renamed'', u_url = None, u_host = Some ''10.0.0.1'',
                    u_interval = None, u_timeout = None\<rparr>"

text \<open>
  A service created on 2024-10-20 at 00:00 UTC, with an incident of 15 s one second
  later, that goes down again on 2024-11-20 at 00:29:45 UTC, in a process running in
  the time zone \<open>tz\<close>.
\<close>

definition exAutumnHistory :: "service_op list" where
  "exAutumnHistory =
     [OpAssign [''a''],
      OpReport ''a'' (exFail 1729382401000) 1729382401000,
      OpReport ''a'' (exOk 1729382416000) 1729382416000,
      OpReport ''a'' (exFail 1732062585000) 1732062585000]"

definition exAutumn :: "TimeZone \<Rightarrow> ServiceStatus" where
  "exAutumn tz = runOps tz (newService exConfig ''s1'' 1729382400000) exAutumnHistory"

text \<open>
  Two slaves register at time 0, the service is added at time 1000 and assigned to both,
  and the second slave sends a heartbeat at time 250000 that lists the service.
\<close>

definition exPair :: master where
  "exPair =
     fst (handleHeartbeat allOk
            (fst (addService allOk
                    (fst (handleHeartbeat allOk
                            (fst (handleHeartbeat allOk exEmpty ''slave1'' ''one'' [] 0))
                            ''slave2'' ''two'' [] 0))
                    exConfig ''s1'' 1000))
            ''slave2'' ''two'' [''s1''] 250000)"

section \<open>Properties\<close>

subsection \<open>Unfolding rules and values of the examples\<close>

lemmas consensus_defs =
  calculateServiceStatus_def serviceConsensus_def totalValidResults_def successfulResults_def
  validResults_def CONSENSUS_THRESHOLD_def STALE_RESULT_THRESHOLD_def

lemmas example_defs =
  exConfig_def exService_def exResult_def exQuorum_def exStaleCache_def newService_def

lemmas incident_defs =
  runOps_def reportService_def storeReport_def handleStatusChange_def recordIncident_def
  getDailyDowntime_def pruneOldDowntimeLogs_def updateUptimePercentages_def jsPercent_def
  getSlaveErrors_def hasErrorText_def getDateString_def dateToTime_def
  MIN_DOWNTIME_MS_def DAYS_TO_KEEP_def MS_PER_DAY_def cutoffTime_def localTime_def utcTime_def
  utcZone_def

lemmas history_defs = exFail_def exOk_def exDownHistory_def exDown_def

lemma exDown_value:
  "exDown = exService\<lparr>lastCheck := 1000, lastStatus := DOWN, assignedSlaves := [''a''],
      currentIncident := Some \<lparr>start = 1000, cur_error = ''a: timeout''\<rparr>,
      slaveResults := [(''a'', \<lparr>success = False, timestamp = 1000, error = Some ''timeout''\<rparr>)]\<rparr>"
  by (simp add: history_defs example_defs incident_defs consensus_defs Let_def)

lemma exOld_value:
  "exOld = exService\<lparr>lastCheck := 2678401000, lastStatus := DOWN,
      uptimePercentage := Num (25 / 4), uptimePercentage30d := Num (25 / 4),
      assignedSlaves := [''a''],
      currentIncident := Some \<lparr>start = 2678401000, cur_error = ''a: timeout''\<rparr>,
      downtimeLog := [\<lparr>date = 0, downtimeMs = 15000,
          incidents = [\<lparr>inc_start = 1000, inc_end = 16000, inc_error = ''a: timeout''\<rparr>]\<rparr>],
      slaveResults := [(''a'', \<lparr>success = False, timestamp = 2678401000, error = Some ''timeout''\<rparr>)]\<rparr>"
  by (simp add: exOld_def exOldHistory_def history_defs example_defs incident_defs consensus_defs Let_def)

subsection \<open>Consensus threshold\<close>

text \<open>
  Claim C1. For a service in the table and any evaluation time, let \<open>N\<close> be the number
  of cached observations whose age is below 300000 ms and \<open>k\<close> the number of those
  that report success. When \<open>N > 0\<close>, \<^verbatim>\<open>calculateServiceStatus\<close> returns UP exactly when
  \<open>k / N \<ge> 0.75\<close> and DOWN exactly when \<open>k / N < 0.75\<close>; with \<open>N = 4\<close> and \<open>k = 3\<close>
  it returns UP, with \<open>N = 4\<close> and \<open>k = 2\<close> it returns DOWN.
\<close>

theorem consensus_threshold:
  assumes "map_of (services st) key = Some service"
    and "N = length (filter (\<lambda>(slaveId, result). now - timestamp result < 300000)
                 (slaveResults service))"
    and "k = length (filter (\<lambda>(slaveId, result). now - timestamp result < 300000 \<and> success result)
                 (slaveResults service))"
  shows "(0 < N \<longrightarrow>
            (calculateServiceStatus st key now = Inr UP \<longleftrightarrow> real k / real N \<ge> 0.75))
       \<and> (0 < N \<longrightarrow>
            (calculateServiceStatus st key now = Inr DOWN \<longleftrightarrow> real k / real N < 0.75))
       \<and> (N = 4 \<and> k = 3 \<longrightarrow> calculateServiceStatus st key now = Inr UP)
       \<and> (N = 4 \<and> k = 2 \<longrightarrow> calculateServiceStatus st key now = Inr DOWN)"
proof -
  have total: "totalValidResults service now = N"
    by (simp add: assms(2) totalValidResults_def validResults_def STALE_RESULT_THRESHOLD_def)
  have "filter (\<lambda>(slaveId, result). success result)
          (filter (\<lambda>(slaveId, result). now - timestamp result < 300000) (slaveResults service)) =
        filter (\<lambda>(slaveId, result). now - timestamp result < 300000 \<and> success result)
          (slaveResults service)"
    by (simp add: case_prod_unfold)
  then have good: "successfulResults service now = k"
    by (simp add: assms(3) successfulResults_def validResults_def STALE_RESULT_THRESHOLD_def)
  show ?thesis
    using assms(1)
    by (simp add: calculateServiceStatus_def serviceConsensus_def CONSENSUS_THRESHOLD_def Let_def
        total good)
qed

theorem consensus_threshold_witness:
  "map_of (services \<lparr>services = [(''s1'', exQuorum True)], slaves = []\<rparr>) ''s1'' = Some (exQuorum True)
   \<and> length (slaveResults (exQuorum True)) = 5
   \<and> length (filter (\<lambda>(slaveId, result). 400000 - timestamp result < 300000)
        (slaveResults (exQuorum True))) = 4
   \<and> length (filter (\<lambda>(slaveId, result). 400000 - timestamp result < 300000 \<and> success result)
        (slaveResults (exQuorum True))) = 3
   \<and> calculateServiceStatus \<lparr>services = [(''s1'', exQuorum True)], slaves = []\<rparr> ''s1'' 400000 = Inr UP
   \<and> map_of (services \<lparr>services = [(''s1'', exQuorum False)], slaves = []\<rparr>) ''s1'' = Some (exQuorum False)
   \<and> length (filter (\<lambda>(slaveId, result). 400000 - timestamp result < 300000)
        (slaveResults (exQuorum False))) = 4
   \<and> length (filter (\<lambda>(slaveId, result). 400000 - timestamp result < 300000 \<and> success result)
        (slaveResults (exQuorum False))) = 2
   \<and> calculateServiceStatus \<lparr>services = [(''s1'', exQuorum False)], slaves = []\<rparr> ''s1'' 400000 = Inr DOWN"
proof -
  have a: "map_of (services \<lparr>services = [(''s1'', exQuorum True)], slaves = []\<rparr>) ''s1'' = Some (exQuorum True)"
    by simp
  have b: "map_of (services \<lparr>services = [(''s1'', exQuorum False)], slaves = []\<rparr>) ''s1'' = Some (exQuorum False)"
    by simp
  have c: "length (slaveResults (exQuorum True)) = 5"
    by (simp add: example_defs)
  have n1: "4 = length (filter (\<lambda>(slaveId, result). 400000 - timestamp result < 300000)
        (slaveResults (exQuorum True)))"
    by (simp add: example_defs)
  have k1: "3 = length (filter (\<lambda>(slaveId, result). 400000 - timestamp result < 300000 \<and> success result)
        (slaveResults (exQuorum True)))"
    by (simp add: example_defs)
  have n2: "4 = length (filter (\<lambda>(slaveId, result). 400000 - timestamp result < 300000)
        (slaveResults (exQuorum False)))"
    by (simp add: example_defs)
  have k2: "2 = length (filter (\<lambda>(slaveId, result). 400000 - timestamp result < 300000 \<and> success result)
        (slaveResults (exQuorum False)))"
    by (simp add: example_defs)
  from consensus_threshold [OF a n1 k1]
  have up: "calculateServiceStatus \<lparr>services = [(''s1'', exQuorum True)], slaves = []\<rparr> ''s1'' 400000 = Inr UP"
    by simp
  from consensus_threshold [OF b n2 k2]
  have down: "calculateServiceStatus \<lparr>services = [(''s1'', exQuorum False)], slaves = []\<rparr> ''s1'' 400000 = Inr DOWN"
    by simp
  from a b c n1 [symmetric] k1 [symmetric] n2 [symmetric] k2 [symmetric] up down
  show ?thesis by blast
qed

subsection \<open>Fields the bookkeeping leaves alone\<close>

lemma getDailyDowntime_fields:
  "slaveResults (getDailyDowntime service d) = slaveResults service"
  "createdAt (getDailyDowntime service d) = createdAt service"
  "lastStatus (getDailyDowntime service d) = lastStatus service"
  "currentIncident (getDailyDowntime service d) = currentIncident service"
  "name (getDailyDowntime service d) = name service"
  "assignedSlaves (getDailyDowntime service d) = assignedSlaves service"
  by (simp_all add: getDailyDowntime_def split: option.split)

lemma recordIncident_fields:
  "slaveResults (recordIncident tz service inc now) = slaveResults service"
  "createdAt (recordIncident tz service inc now) = createdAt service"
  "lastStatus (recordIncident tz service inc now) = lastStatus service"
  "currentIncident (recordIncident tz service inc now) = currentIncident service"
  "name (recordIncident tz service inc now) = name service"
  "assignedSlaves (recordIncident tz service inc now) = assignedSlaves service"
  by (simp_all add: recordIncident_def pruneOldDowntimeLogs_def updateUptimePercentages_def
      Let_def getDailyDowntime_fields)

lemma storeReport_fields:
  "lastStatus (storeReport service slaveId report) = lastStatus service"
  "currentIncident (storeReport service slaveId report) = currentIncident service"
  "createdAt (storeReport service slaveId report) = createdAt service"
  "downtimeLog (storeReport service slaveId report) = downtimeLog service"
  by (simp_all add: storeReport_def)

lemma applyUpdates_fields:
  "lastStatus (applyUpdates service updates) = lastStatus service"
  "currentIncident (applyUpdates service updates) = currentIncident service"
  "createdAt (applyUpdates service updates) = createdAt service"
  "downtimeLog (applyUpdates service updates) = downtimeLog service"
  by (simp_all add: applyUpdates_def Let_def split: option.split)

lemma handleStatusChange_slaveResults:
  "slaveResults (fst (handleStatusChange tz service newStatus now)) = slaveResults service"
  by (cases "currentIncident service")
     (simp_all add: handleStatusChange_def Let_def recordIncident_fields)

lemma reportService_slaveResults:
  "slaveResults (fst (reportService tz service slaveId report now)) =
     AList.update slaveId
       \<lparr>success = r_success report, timestamp = r_timestamp report, error = r_error report\<rparr>
       (slaveResults service)"
  by (simp add: reportService_def storeReport_def Let_def handleStatusChange_slaveResults)

lemma handleStatusChange_lastStatus:
  "lastStatus (fst (handleStatusChange tz service newStatus now)) = newStatus"
  by (cases "currentIncident service") (simp_all add: handleStatusChange_def Let_def)

lemma handleStatusChange_currentIncident:
  "currentIncident (fst (handleStatusChange tz service newStatus now)) =
     (if newStatus = DOWN \<and> lastStatus service = UP
      then Some \<lparr>start = now, cur_error = getSlaveErrors service\<rparr>
      else if newStatus = UP \<and> lastStatus service = DOWN then None
      else currentIncident service)"
  by (cases "currentIncident service") (simp_all add: handleStatusChange_def Let_def)

lemma handleStatusChange_createdAt:
  "createdAt (fst (handleStatusChange tz service newStatus now)) = createdAt service"
  by (cases "currentIncident service")
     (simp_all add: handleStatusChange_def Let_def recordIncident_fields)

lemma reportService_createdAt:
  "createdAt (fst (reportService tz service slaveId report now)) = createdAt service"
  by (simp add: reportService_def Let_def handleStatusChange_createdAt storeReport_fields)

lemma reportService_currentIncident:
  "currentIncident (fst (reportService tz service slaveId report now)) = None
   \<or> currentIncident (fst (reportService tz service slaveId report now)) = currentIncident service
   \<or> (\<exists>e. currentIncident (fst (reportService tz service slaveId report now)) =
            Some \<lparr>start = now, cur_error = e\<rparr>)"
  by (simp add: reportService_def Let_def handleStatusChange_currentIncident storeReport_fields)

lemma applyOp_createdAt: "createdAt (applyOp tz service operation) = createdAt service"
  by (cases operation) (simp_all add: reportService_createdAt applyUpdates_fields)

subsection \<open>Stale observations\<close>

lemma validResults_freshOnly:
  "validResults (freshOnly service now) now = validResults service now"
  by (simp add: validResults_def freshOnly_def STALE_RESULT_THRESHOLD_def)

lemma serviceConsensus_freshOnly:
  "serviceConsensus (freshOnly service now) now = serviceConsensus service now"
proof -
  have "lastStatus (freshOnly service now) = lastStatus service"
    by (simp add: freshOnly_def)
  then show ?thesis
    by (simp add: serviceConsensus_def totalValidResults_def successfulResults_def
        validResults_freshOnly)
qed

lemma all_stale_no_valid:
  assumes "\<forall>(a, r) \<in> set (slaveResults service). now - timestamp r \<ge> 300000"
  shows "validResults service now = []"
  using assms by (auto simp: validResults_def STALE_RESULT_THRESHOLD_def filter_empty_conv)

text \<open>
  Claim C4. An observation whose age is five minutes or more is not among the valid
  results, so it is not counted in \<open>N\<close>: the count is that of the fresh entries, and the
  consensus is the one computed on the cache without its stale entries. Handling a
  report deletes nothing from the cache (it only stores the reporting slave's entry).
  When every cached observation is stale, the evaluation returns the stored status.
\<close>

theorem stale_results_excluded:
  assumes "map_of (services st) key = Some service"
  shows "(\<forall>(a, r) \<in> set (slaveResults service).
            now - timestamp r \<ge> 300000 \<longrightarrow> (a, r) \<notin> set (validResults service now))
       \<and> totalValidResults service now =
           length (filter (\<lambda>(a, r). now - timestamp r < 300000) (slaveResults service))
       \<and> calculateServiceStatus (st\<lparr>services := AList.update key (freshOnly service now) (services st)\<rparr>) key now
           = calculateServiceStatus st key now
       \<and> slaveResults (fst (reportService tz service slaveId report now)) =
           AList.update slaveId
             \<lparr>success = r_success report, timestamp = r_timestamp report, error = r_error report\<rparr>
             (slaveResults service)
       \<and> ((\<forall>(a, r) \<in> set (slaveResults service). now - timestamp r \<ge> 300000) \<longrightarrow>
            calculateServiceStatus st key now = Inr (lastStatus service))"
proof (intro conjI)
  show "\<forall>(a, r) \<in> set (slaveResults service).
          now - timestamp r \<ge> 300000 \<longrightarrow> (a, r) \<notin> set (validResults service now)"
    by (auto simp: validResults_def STALE_RESULT_THRESHOLD_def)
  show "totalValidResults service now =
          length (filter (\<lambda>(a, r). now - timestamp r < 300000) (slaveResults service))"
    by (simp add: totalValidResults_def validResults_def STALE_RESULT_THRESHOLD_def)
  show "calculateServiceStatus (st\<lparr>services := AList.update key (freshOnly service now) (services st)\<rparr>) key now
          = calculateServiceStatus st key now"
    using assms by (simp add: calculateServiceStatus_def update_conv' serviceConsensus_freshOnly)
  show "slaveResults (fst (reportService tz service slaveId report now)) =
           AList.update slaveId
             \<lparr>success = r_success report, timestamp = r_timestamp report, error = r_error report\<rparr>
             (slaveResults service)"
    by (rule reportService_slaveResults)
  show "(\<forall>(a, r) \<in> set (slaveResults service). now - timestamp r \<ge> 300000) \<longrightarrow>
            calculateServiceStatus st key now = Inr (lastStatus service)"
    using assms all_stale_no_valid [of service now]
    by (simp add: calculateServiceStatus_def serviceConsensus_def totalValidResults_def)
qed

theorem stale_results_excluded_witness:
  "map_of (services \<lparr>services = [(''s1'', exStaleCache)], slaves = []\<rparr>) ''s1'' = Some exStaleCache
   \<and> slaveResults exStaleCache = [(''a'', exResult False 0), (''b'', exResult True 400000)]
   \<and> 800000 - timestamp (exResult False 0) \<ge> 300000
   \<and> 800000 - timestamp (exResult True 400000) \<ge> 300000
   \<and> calculateServiceStatus \<lparr>services = [(''s1'', exStaleCache)], slaves = []\<rparr> ''s1'' 800000 = Inr UP
   \<and> (''a'', exResult False 0) \<in> set (slaveResults exStaleCache)
   \<and> 500000 - timestamp (exResult False 0) \<ge> 300000
   \<and> (''a'', exResult False 0) \<notin> set (validResults exStaleCache 500000)"
proof -
  have a: "map_of (services \<lparr>services = [(''s1'', exStaleCache)], slaves = []\<rparr>) ''s1'' = Some exStaleCache"
    by simp
  have b: "\<forall>(a, r) \<in> set (slaveResults exStaleCache). 800000 - timestamp r \<ge> 300000"
    by (simp add: example_defs)
  have c: "(''a'', exResult False 0) \<in> set (slaveResults exStaleCache)"
    by (simp add: example_defs)
  have d: "500000 - timestamp (exResult False 0) \<ge> 300000"
    by (simp add: example_defs)
  have e: "lastStatus exStaleCache = UP"
    by (simp add: example_defs)
  from stale_results_excluded [OF a, of 800000] b e
  have f: "calculateServiceStatus \<lparr>services = [(''s1'', exStaleCache)], slaves = []\<rparr> ''s1'' 800000 = Inr UP"
    by simp
  from stale_results_excluded [OF a, of 500000] c d
  have g: "(''a'', exResult False 0) \<notin> set (validResults exStaleCache 500000)"
    by blast
  have h: "slaveResults exStaleCache = [(''a'', exResult False 0), (''b'', exResult True 400000)]"
    by (simp add: example_defs)
  have i: "800000 - timestamp (exResult False 0) \<ge> 300000
         \<and> 800000 - timestamp (exResult True 400000) \<ge> 300000"
    by (simp add: example_defs)
  from a c d f g h i show ?thesis by blast
qed

subsection \<open>Status and open incident\<close>

lemma handleStatusChange_statusInv:
  "statusInv service \<Longrightarrow> statusInv (fst (handleStatusChange tz service newStatus now))"
  by (cases newStatus; cases "lastStatus service")
     (simp_all add: statusInv_def handleStatusChange_lastStatus handleStatusChange_currentIncident)

lemma reportService_statusInv:
  assumes "statusInv service"
  shows "statusInv (fst (reportService tz service slaveId report now))"
proof -
  let ?s1 = "storeReport service slaveId report"
  have inv1: "statusInv ?s1"
    using assms by (simp add: statusInv_def storeReport_fields)
  show ?thesis
  proof (cases "lastStatus ?s1 \<noteq> serviceConsensus ?s1 now")
    case True
    with handleStatusChange_statusInv [OF inv1, where newStatus = "serviceConsensus ?s1 now" and now = now and tz = tz]
    show ?thesis by (simp add: reportService_def Let_def statusInv_def)
  next
    case False
    with inv1 show ?thesis by (simp add: reportService_def Let_def statusInv_def)
  qed
qed

lemma applyOp_statusInv: "statusInv service \<Longrightarrow> statusInv (applyOp tz service operation)"
proof (cases operation)
  case (OpReport slaveId report now)
  assume "statusInv service"
  with OpReport show ?thesis by (simp add: reportService_statusInv)
next
  case (OpEdit updates)
  assume "statusInv service"
  with OpEdit show ?thesis by (simp add: statusInv_def applyUpdates_fields)
next
  case (OpAssign xs)
  assume "statusInv service"
  with OpAssign show ?thesis by (simp add: statusInv_def)
qed

lemma runOps_statusInv: "statusInv service \<Longrightarrow> statusInv (runOps tz service ops)"
  unfolding runOps_def by (induction ops arbitrary: service) (simp_all add: applyOp_statusInv)

lemma newService_statusInv: "statusInv (newService config newId now)"
  by (simp add: statusInv_def newService_def)

text \<open>
  Claim C2. A service built by \<^verbatim>\<open>addService\<close> starts UP with no open incident.
  After any history of reports (and of edits and reassignments), its stored status is
  DOWN exactly when an open incident is present. The transition from UP to DOWN opens
  an incident that starts now, the transition from DOWN to UP clears it, and the next
  operation, whatever it is, keeps the equivalence.
\<close>

theorem status_down_iff_open_incident:
  assumes "service = runOps tz (newService config newId t0) ops"
  shows "lastStatus (newService config newId t0) = UP
       \<and> currentIncident (newService config newId t0) = None
       \<and> (lastStatus service = DOWN \<longleftrightarrow> currentIncident service \<noteq> None)
       \<and> (lastStatus service = UP \<longrightarrow>
            lastStatus (fst (handleStatusChange tz service DOWN now)) = DOWN
          \<and> currentIncident (fst (handleStatusChange tz service DOWN now)) =
              Some \<lparr>start = now, cur_error = getSlaveErrors service\<rparr>)
       \<and> (lastStatus service = DOWN \<longrightarrow>
            lastStatus (fst (handleStatusChange tz service UP now)) = UP
          \<and> currentIncident (fst (handleStatusChange tz service UP now)) = None)
       \<and> (lastStatus (applyOp tz service operation) = DOWN \<longleftrightarrow>
            currentIncident (applyOp tz service operation) \<noteq> None)"
proof -
  have inv: "statusInv service"
    unfolding assms by (rule runOps_statusInv [OF newService_statusInv])
  have inv': "statusInv (applyOp tz service operation)"
    by (rule applyOp_statusInv [OF inv])
  show ?thesis
    using inv inv'
    by (simp add: statusInv_def handleStatusChange_lastStatus handleStatusChange_currentIncident)
       (simp add: newService_def)
qed

theorem status_down_iff_open_incident_witness:
  "exDown = runOps utcZone (newService exConfig ''s1'' 0) exDownHistory
   \<and> lastStatus exDown = DOWN
   \<and> currentIncident exDown = Some \<lparr>start = 1000, cur_error = ''a: timeout''\<rparr>
   \<and> lastStatus (fst (handleStatusChange utcZone exDown UP 16000)) = UP
   \<and> currentIncident (fst (handleStatusChange utcZone exDown UP 16000)) = None"
proof -
  have a: "exDown = runOps utcZone (newService exConfig ''s1'' 0) exDownHistory"
    by (simp add: exDown_def exService_def)
  have b: "lastStatus exDown = DOWN"
    by (simp add: exDown_value)
  have c: "currentIncident exDown = Some \<lparr>start = 1000, cur_error = ''a: timeout''\<rparr>"
    by (simp add: exDown_value)
  from status_down_iff_open_incident [OF a, where now = 16000] a b c show ?thesis by blast
qed

subsection \<open>Finding, sorting and modifying ledger entries\<close>

lemma find_insort_key_other:
  "\<not> P x \<Longrightarrow> find P (insort_key f x ys) = find P ys"
  by (induction ys) simp_all

lemma find_insort_key_None:
  "find P ys = None \<Longrightarrow> P x \<Longrightarrow> find P (insort_key f x ys) = Some x"
  by (induction ys) (simp_all split: if_splits)

lemma find_foldr_insort:
  "find P xs = None \<Longrightarrow> find P (foldr (insort_key f) xs ys) = find P ys"
  by (induction xs) (simp_all add: find_insort_key_other split: if_splits)

lemma find_sort_key_snoc:
  assumes "find P xs = None" "P x"
  shows "find P (sort_key f (xs @ [x])) = Some x"
proof -
  have "sort_key f (xs @ [x]) = foldr (insort_key f) xs [x]"
    by (simp add: sort_key_def)
  with assms show ?thesis by (simp add: find_foldr_insort)
qed

lemma find_modifyFirst:
  "(\<And>x. P x \<Longrightarrow> P (g x)) \<Longrightarrow> find P (modifyFirst P g xs) = map_option g (find P xs)"
  by (induction xs) simp_all

lemma find_filter_implied:
  "(\<And>x. P x \<Longrightarrow> Q x) \<Longrightarrow> find P (filter Q xs) = find P xs"
  by (induction xs) auto

lemma map_modifyFirst:
  "(\<And>x. f (g x) = f x) \<Longrightarrow> map f (modifyFirst P g xs) = map f xs"
  by (induction xs) simp_all

lemma distinct_map_sort_key:
  "distinct (map f (sort_key f xs)) = distinct (map f xs)"
proof -
  have "distinct (map f (foldr (insort_key f) xs [])) = distinct (map f xs)"
    by (induction xs) (simp_all add: distinct_insort_key set_sort [unfolded sort_key_def] )
  then show ?thesis by (simp add: sort_key_def)
qed

subsection \<open>Closing an incident\<close>

lemma cutoff_constant_offset:
  assumes "\<And>t. utcOffset tz t = c" and "\<And>w. localOffset tz w = c"
  shows "getDateString (cutoffTime tz now) = getDateString now - 30"
  by (simp add: cutoffTime_def localTime_def utcTime_def assms getDateString_def DAYS_TO_KEEP_def
      MS_PER_DAY_def)

lemma cutoff_not_after_today:
  assumes "zoneWithinDay tz"
  shows "getDateString (cutoffTime tz now) \<le> getDateString now"
proof -
  from assms have "\<bar>utcOffset tz now\<bar> \<le> MS_PER_DAY"
    and "\<bar>localOffset tz (localTime tz now - DAYS_TO_KEEP * MS_PER_DAY)\<bar> \<le> MS_PER_DAY"
    unfolding zoneWithinDay_def by blast+
  then have "cutoffTime tz now \<le> now"
    by (simp add: cutoffTime_def localTime_def utcTime_def DAYS_TO_KEEP_def MS_PER_DAY_def)
  then show ?thesis
    by (simp add: getDateString_def MS_PER_DAY_def zdiv_mono1)
qed

lemma downtimeLog_recordIncident:
  "downtimeLog (recordIncident tz service inc now) =
     filter (\<lambda>l. getDateString (cutoffTime tz now) \<le> date l)
       (modifyFirst (\<lambda>l. date l = getDateString now) (addToDay inc now)
          (downtimeLog (getDailyDowntime service (getDateString now))))"
proof -
  have "addToDay inc now = (\<lambda>dailyLog. dailyLog\<lparr>
           incidents := incidents dailyLog @
             [\<lparr>inc_start = start inc, inc_end = now, inc_error = cur_error inc\<rparr>],
           downtimeMs := downtimeMs dailyLog + (now - start inc)\<rparr>)"
    by (simp add: addToDay_def closeIncident_def fun_eq_iff)
  then show ?thesis
    by (simp add: recordIncident_def Let_def pruneOldDowntimeLogs_def updateUptimePercentages_def)
qed

lemma find_getDailyDowntime:
  "find (\<lambda>l. date l = d) (downtimeLog (getDailyDowntime service d)) =
     Some (case find (\<lambda>l. date l = d) (downtimeLog service) of
             None \<Rightarrow> \<lparr>date = d, downtimeMs = 0, incidents = []\<rparr>
           | Some l \<Rightarrow> l)"
proof (cases "find (\<lambda>l. date l = d) (downtimeLog service)")
  case None
  then show ?thesis
    by (simp add: getDailyDowntime_def find_sort_key_snoc)
next
  case (Some l)
  then show ?thesis by (simp add: getDailyDowntime_def)
qed

lemma date_addToDay: "date (addToDay inc now l) = date l"
  by (simp add: addToDay_def)

lemma find_recordIncident:
  assumes "zoneWithinDay tz"
  shows "find (\<lambda>l. date l = getDateString now) (downtimeLog (recordIncident tz service inc now)) =
     Some (addToDay inc now
       (case find (\<lambda>l. date l = getDateString now) (downtimeLog service) of
          None \<Rightarrow> \<lparr>date = getDateString now, downtimeMs = 0, incidents = []\<rparr>
        | Some l \<Rightarrow> l))"
proof -
  have "find (\<lambda>l. date l = getDateString now) (downtimeLog (recordIncident tz service inc now)) =
        find (\<lambda>l. date l = getDateString now)
          (modifyFirst (\<lambda>l. date l = getDateString now) (addToDay inc now)
             (downtimeLog (getDailyDowntime service (getDateString now))))"
    unfolding downtimeLog_recordIncident
    by (rule find_filter_implied) (simp add: cutoff_not_after_today [OF assms])
  also have "\<dots> = map_option (addToDay inc now)
        (find (\<lambda>l. date l = getDateString now)
           (downtimeLog (getDailyDowntime service (getDateString now))))"
    by (rule find_modifyFirst) (simp add: date_addToDay)
  finally show ?thesis by (simp add: find_getDailyDowntime)
qed

lemma handleStatusChange_close_short:
  assumes "lastStatus service = DOWN" "currentIncident service = Some inc"
    "now - start inc < 10000"
  shows "handleStatusChange tz service UP now =
           (service\<lparr>currentIncident := None, lastStatus := UP\<rparr>, [])"
  using assms by (simp add: handleStatusChange_def Let_def MIN_DOWNTIME_MS_def)

lemma handleStatusChange_close_long:
  assumes "lastStatus service = DOWN" "currentIncident service = Some inc"
    "10000 \<le> now - start inc"
  shows "handleStatusChange tz service UP now =
           ((recordIncident tz service inc now)\<lparr>currentIncident := None, lastStatus := UP\<rparr>,
            [AlertUp (name service) now (now - start inc)])"
  using assms by (simp add: handleStatusChange_def Let_def MIN_DOWNTIME_MS_def)

text \<open>
  Claim C3. A service is DOWN with an open incident and the consensus flips it to UP.
  If the downtime lasted less than 10000 ms, only the open incident and the status
  change: nothing is appended to the ledger, the percentages stay as they were and no
  alert is sent. If it lasted 10000 ms or more, a recovery alert carrying the duration is
  sent, the incident is cleared, the status is UP, and the ledger entry of the UTC day
  \<open>now div 86400000\<close> on which the incident ended holds the closed incident after the
  ones it had, with the duration added to its cumulative downtime (a fresh entry starts
  from zero). The process may run in any time zone whose offsets from UTC stay within a
  day (\<open>zoneWithinDay\<close>), as those of all real time zones do.
\<close>

theorem minimum_downtime_suppression:
  assumes "lastStatus service = DOWN" and "currentIncident service = Some inc"
    and "zoneWithinDay tz"
  shows "(now - start inc < 10000 \<longrightarrow>
            handleStatusChange tz service UP now =
              (service\<lparr>currentIncident := None, lastStatus := UP\<rparr>, []))
       \<and> (10000 \<le> now - start inc \<longrightarrow>
            snd (handleStatusChange tz service UP now) =
              [AlertUp (name service) now (now - start inc)]
          \<and> currentIncident (fst (handleStatusChange tz service UP now)) = None
          \<and> lastStatus (fst (handleStatusChange tz service UP now)) = UP
          \<and> find (\<lambda>l. date l = now div 86400000)
               (downtimeLog (fst (handleStatusChange tz service UP now))) =
              Some (case find (\<lambda>l. date l = now div 86400000) (downtimeLog service) of
                      None \<Rightarrow>
                        \<lparr>date = now div 86400000, downtimeMs = now - start inc,
                         incidents =
                           [\<lparr>inc_start = start inc, inc_end = now, inc_error = cur_error inc\<rparr>]\<rparr>
                    | Some l \<Rightarrow>
                        l\<lparr>incidents := incidents l @
                             [\<lparr>inc_start = start inc, inc_end = now, inc_error = cur_error inc\<rparr>],
                          downtimeMs := downtimeMs l + (now - start inc)\<rparr>))"
proof (intro conjI impI)
  assume "now - start inc < 10000"
  with assms(1,2) show "handleStatusChange tz service UP now =
       (service\<lparr>currentIncident := None, lastStatus := UP\<rparr>, [])"
    by (rule handleStatusChange_close_short)
next
  assume long: "10000 \<le> now - start inc"
  note eq = handleStatusChange_close_long [OF assms(1,2) long]
  have day: "getDateString now = now div 86400000"
    by (simp add: getDateString_def MS_PER_DAY_def)
  show "snd (handleStatusChange tz service UP now) = [AlertUp (name service) now (now - start inc)]"
    by (simp add: eq)
  show "currentIncident (fst (handleStatusChange tz service UP now)) = None"
    by (simp add: eq)
  show "lastStatus (fst (handleStatusChange tz service UP now)) = UP"
    by (simp add: eq)
  show "find (\<lambda>l. date l = now div 86400000)
          (downtimeLog (fst (handleStatusChange tz service UP now))) =
        Some (case find (\<lambda>l. date l = now div 86400000) (downtimeLog service) of
                None \<Rightarrow>
                  \<lparr>date = now div 86400000, downtimeMs = now - start inc,
                   incidents =
                     [\<lparr>inc_start = start inc, inc_end = now, inc_error = cur_error inc\<rparr>]\<rparr>
              | Some l \<Rightarrow>
                  l\<lparr>incidents := incidents l @
                       [\<lparr>inc_start = start inc, inc_end = now, inc_error = cur_error inc\<rparr>],
                    downtimeMs := downtimeMs l + (now - start inc)\<rparr>)"
    using find_recordIncident [OF assms(3), where now = now and service = service and inc = inc]
    by (simp add: eq day addToDay_def closeIncident_def split: option.split)
qed

lemma zoneWithinDay_examples: "zoneWithinDay utcZone" "zoneWithinDay exNewYork"
  by (simp_all add: zoneWithinDay_def utcZone_def exNewYork_def MS_PER_DAY_def)

theorem minimum_downtime_suppression_witness:
  "lastStatus exOld = DOWN
   \<and> currentIncident exOld = Some \<lparr>start = 2678401000, cur_error = ''a: timeout''\<rparr>
   \<and> zoneWithinDay exNewYork
   \<and> map date (downtimeLog exOld) = [0]
   \<and> handleStatusChange exNewYork exOld UP 2678410999 =
        (exOld\<lparr>currentIncident := None, lastStatus := UP\<rparr>, [])
   \<and> snd (handleStatusChange exNewYork exOld UP 2678411000) = [AlertUp ''web'' 2678411000 10000]
   \<and> find (\<lambda>l. date l = 31) (downtimeLog (fst (handleStatusChange exNewYork exOld UP 2678411000))) =
        Some \<lparr>date = 31, downtimeMs = 10000,
              incidents = [\<lparr>inc_start = 2678401000, inc_end = 2678411000,
                            inc_error = ''a: timeout''\<rparr>]\<rparr>"
proof -
  have a: "lastStatus exOld = DOWN"
    by (simp add: exOld_value)
  have b: "currentIncident exOld = Some \<lparr>start = 2678401000, cur_error = ''a: timeout''\<rparr>"
    by (simp add: exOld_value)
  have c: "map date (downtimeLog exOld) = [0]" "name exOld = ''web''"
    by (simp_all add: exOld_value example_defs)
  have d: "(2678411000 :: int) div 86400000 = 31"
    by simp
  note z = zoneWithinDay_examples(2)
  from minimum_downtime_suppression [OF a b z, where now = 2678410999]
  have short: "handleStatusChange exNewYork exOld UP 2678410999 =
      (exOld\<lparr>currentIncident := None, lastStatus := UP\<rparr>, [])"
    by simp
  have none: "find (\<lambda>l. date l = 31) (downtimeLog exOld) = None"
    by (simp add: exOld_value)
  from minimum_downtime_suppression [OF a b z, where now = 2678411000]
  have long: "snd (handleStatusChange exNewYork exOld UP 2678411000) = [AlertUp ''web'' 2678411000 10000]
     \<and> find (\<lambda>l. date l = 31) (downtimeLog (fst (handleStatusChange exNewYork exOld UP 2678411000))) =
        Some \<lparr>date = 31, downtimeMs = 10000,
              incidents = [\<lparr>inc_start = 2678401000, inc_end = 2678411000,
                            inc_error = ''a: timeout''\<rparr>]\<rparr>"
    by (simp add: c d none)
  from a b c(1) z short long show ?thesis by blast
qed

subsection \<open>The downtime ledger\<close>

lemma ledgerInv_getDailyDowntime:
  assumes "ledgerInv (downtimeLog service)"
  shows "ledgerInv (downtimeLog (getDailyDowntime service d))"
proof (cases "find (\<lambda>l. date l = d) (downtimeLog service)")
  case None
  then have "d \<notin> date ` set (downtimeLog service)"
    by (auto simp: find_None_iff)
  with assms None show ?thesis
    by (simp add: getDailyDowntime_def ledgerInv_def distinct_map_sort_key)
next
  case (Some l)
  with assms show ?thesis by (simp add: getDailyDowntime_def)
qed

lemma ledgerInv_modifyFirst:
  "ledgerInv ledger \<Longrightarrow> ledgerInv (modifyFirst P (addToDay inc now) ledger)"
  by (simp add: ledgerInv_def map_modifyFirst date_addToDay)

lemma ledgerInv_filter: "ledgerInv ledger \<Longrightarrow> ledgerInv (filter P ledger)"
  by (simp add: ledgerInv_def distinct_map_filter sorted_filter)

lemma ledgerInv_recordIncident:
  "ledgerInv (downtimeLog service) \<Longrightarrow> ledgerInv (downtimeLog (recordIncident tz service inc now))"
  unfolding downtimeLog_recordIncident
  by (intro ledgerInv_filter ledgerInv_modifyFirst ledgerInv_getDailyDowntime)

lemma downtimeLog_handleStatusChange:
  "downtimeLog (fst (handleStatusChange tz service newStatus now)) =
     (case currentIncident service of
        None \<Rightarrow> downtimeLog service
      | Some inc \<Rightarrow>
          if newStatus = UP \<and> lastStatus service = DOWN \<and> MIN_DOWNTIME_MS \<le> now - start inc
          then downtimeLog (recordIncident tz service inc now)
          else downtimeLog service)"
  by (cases "currentIncident service") (simp_all add: handleStatusChange_def Let_def)

lemma ledgerInv_handleStatusChange:
  "ledgerInv (downtimeLog service) \<Longrightarrow>
   ledgerInv (downtimeLog (fst (handleStatusChange tz service newStatus now)))"
  by (simp add: downtimeLog_handleStatusChange ledgerInv_recordIncident split: option.split)

lemma ledgerInv_reportService:
  assumes "ledgerInv (downtimeLog service)"
  shows "ledgerInv (downtimeLog (fst (reportService tz service slaveId report now)))"
proof -
  let ?s1 = "storeReport service slaveId report"
  have inv1: "ledgerInv (downtimeLog ?s1)"
    using assms by (simp add: storeReport_fields)
  show ?thesis
    using inv1 ledgerInv_handleStatusChange [OF inv1, where newStatus = "serviceConsensus ?s1 now" and now = now and tz = tz]
    by (simp add: reportService_def Let_def)
qed

lemma ledgerInv_applyOp:
  "ledgerInv (downtimeLog service) \<Longrightarrow> ledgerInv (downtimeLog (applyOp tz service operation))"
  by (cases operation) (simp_all add: ledgerInv_reportService applyUpdates_fields)

lemma ledgerInv_runOps:
  "ledgerInv (downtimeLog service) \<Longrightarrow> ledgerInv (downtimeLog (runOps tz service ops))"
  unfolding runOps_def by (induction ops arbitrary: service) (simp_all add: ledgerInv_applyOp)

lemma ledgerInv_newService: "ledgerInv (downtimeLog (newService config newId now))"
  by (simp add: ledgerInv_def newService_def)

lemma pruned_recordIncident:
  "l \<in> set (downtimeLog (recordIncident tz service inc now)) \<Longrightarrow>
   getDateString (cutoffTime tz now) \<le> date l"
  by (simp add: downtimeLog_recordIncident)

lemma uptime_recordIncident:
  "uptimePercentage (recordIncident tz service inc now) =
     jsPercent (now - createdAt service
                 - sum_list (map downtimeMs (downtimeLog (recordIncident tz service inc now))))
       (now - createdAt service)"
  "uptimePercentage30d (recordIncident tz service inc now) =
     jsPercent (min (now - createdAt service) 2592000000
                 - sum_list (map downtimeMs
                     (filter (\<lambda>l. now - 2592000000 \<le> dateToTime (date l))
                        (downtimeLog (recordIncident tz service inc now)))))
       (min (now - createdAt service) 2592000000)"
  by (simp_all add: recordIncident_def pruneOldDowntimeLogs_def updateUptimePercentages_def
      Let_def getDailyDowntime_fields)

text \<open>
  In every history and every time zone the ledger has at most one entry per date and is
  sorted by date; after a recording every entry is dated no earlier than the cutoff date
  the zone gives, and the percentages are computed from the pruned ledger. When the
  zone's offset is constant the cutoff date is 30 days before today's.
\<close>

lemma ledger_in_every_history:
  assumes "service = runOps tz (newService config newId t0) ops"
  shows "distinct (map date (downtimeLog service))
       \<and> sorted (map date (downtimeLog service))
       \<and> (lastStatus service = DOWN \<and> currentIncident service = Some inc
            \<and> 10000 \<le> now - start inc \<longrightarrow>
            distinct (map date (downtimeLog (fst (handleStatusChange tz service UP now))))
          \<and> sorted (map date (downtimeLog (fst (handleStatusChange tz service UP now))))
          \<and> (\<forall>l \<in> set (downtimeLog (fst (handleStatusChange tz service UP now))).
                getDateString (cutoffTime tz now) \<le> date l)
          \<and> uptimePercentage (fst (handleStatusChange tz service UP now)) =
              jsPercent (now - createdAt service
                  - sum_list (map downtimeMs
                      (downtimeLog (fst (handleStatusChange tz service UP now)))))
                (now - createdAt service)
          \<and> uptimePercentage30d (fst (handleStatusChange tz service UP now)) =
              jsPercent (min (now - createdAt service) 2592000000
                  - sum_list (map downtimeMs
                      (filter (\<lambda>l. now - 2592000000 \<le> dateToTime (date l))
                         (downtimeLog (fst (handleStatusChange tz service UP now))))))
                (min (now - createdAt service) 2592000000))"
proof -
  have inv: "ledgerInv (downtimeLog service)"
    unfolding assms by (rule ledgerInv_runOps [OF ledgerInv_newService])
  have closing: "distinct (map date (downtimeLog (fst (handleStatusChange tz service UP now))))
          \<and> sorted (map date (downtimeLog (fst (handleStatusChange tz service UP now))))
          \<and> (\<forall>l \<in> set (downtimeLog (fst (handleStatusChange tz service UP now))).
                getDateString (cutoffTime tz now) \<le> date l)
          \<and> uptimePercentage (fst (handleStatusChange tz service UP now)) =
              jsPercent (now - createdAt service
                  - sum_list (map downtimeMs
                      (downtimeLog (fst (handleStatusChange tz service UP now)))))
                (now - createdAt service)
          \<and> uptimePercentage30d (fst (handleStatusChange tz service UP now)) =
              jsPercent (min (now - createdAt service) 2592000000
                  - sum_list (map downtimeMs
                      (filter (\<lambda>l. now - 2592000000 \<le> dateToTime (date l))
                         (downtimeLog (fst (handleStatusChange tz service UP now))))))
                (min (now - createdAt service) 2592000000)"
    if down: "lastStatus service = DOWN" and open_inc: "currentIncident service = Some inc"
      and long: "10000 \<le> now - start inc"
  proof -
    note eq = handleStatusChange_close_long [OF down open_inc long]
    have log: "downtimeLog (fst (handleStatusChange tz service UP now)) =
                 downtimeLog (recordIncident tz service inc now)"
      by (simp add: eq)
    have inv': "ledgerInv (downtimeLog (recordIncident tz service inc now))"
      by (rule ledgerInv_recordIncident [OF inv])
    have pruned: "\<forall>l \<in> set (downtimeLog (recordIncident tz service inc now)).
                    getDateString (cutoffTime tz now) \<le> date l"
      using pruned_recordIncident by blast
    have pct: "uptimePercentage (fst (handleStatusChange tz service UP now)) =
                 uptimePercentage (recordIncident tz service inc now)"
              "uptimePercentage30d (fst (handleStatusChange tz service UP now)) =
                 uptimePercentage30d (recordIncident tz service inc now)"
      by (simp_all add: eq)
    show ?thesis
      unfolding log pct
      using inv' pruned uptime_recordIncident [of tz service inc now]
      by (simp add: ledgerInv_def)
  qed
  from inv closing show ?thesis
    by (simp add: ledgerInv_def)
qed

text \<open>
  Claim C6, at an input where the process runs in the time zone of New York. The service
  is created on 2024-10-20 (UTC day 20016) and has an incident of 15 s that day. A second
  incident is closed on 2024-11-20 at 00:30 UTC (day 20047). The cutoff is taken 30 days
  back on the local clock, across the end of daylight saving time: 2024-10-20 at 23:30
  UTC, day 20016. The entry dated 31 days before today is therefore kept, and its 15 s
  are part of the all-time downtime of 30 s. In UTC the same history prunes it.
\<close>

theorem ledger_keeps_entry_31_days_old:
  "getDateString 1732062600000 = 20047
   \<and> getDateString (cutoffTime exNewYork 1732062600000) = 20016
   \<and> lastStatus (exAutumn exNewYork) = DOWN
   \<and> currentIncident (exAutumn exNewYork) =
        Some \<lparr>start = 1732062585000, cur_error = ''a: timeout''\<rparr>
   \<and> map date (downtimeLog (exAutumn exNewYork)) = [20016]
   \<and> map date (downtimeLog (fst (handleStatusChange exNewYork (exAutumn exNewYork) UP 1732062600000)))
        = [20016, 20047]
   \<and> find (\<lambda>l. date l = 20047 - 31)
        (downtimeLog (fst (handleStatusChange exNewYork (exAutumn exNewYork) UP 1732062600000)))
        = Some \<lparr>date = 20016, downtimeMs = 15000,
                 incidents = [\<lparr>inc_start = 1729382401000, inc_end = 1729382416000,
                               inc_error = ''a: timeout''\<rparr>]\<rparr>
   \<and> uptimePercentage (fst (handleStatusChange exNewYork (exAutumn exNewYork) UP 1732062600000))
        = jsPercent (2680200000 - 30000) 2680200000
   \<and> map date (downtimeLog (fst (handleStatusChange utcZone (exAutumn utcZone) UP 1732062600000)))
        = [20047]"
  by code_simp

subsection \<open>Age of the service when the percentages are recomputed\<close>

lemma startInv_reportService:
  assumes "startInv service" "createdAt service \<le> now"
  shows "startInv (fst (reportService tz service slaveId report now))"
proof -
  let ?s' = "fst (reportService tz service slaveId report now)"
  have created: "createdAt ?s' = createdAt service"
    by (rule reportService_createdAt)
  from reportService_currentIncident [of tz service slaveId report now]
  show ?thesis
  proof (elim disjE exE)
    assume "currentIncident ?s' = None"
    then show ?thesis by (simp add: startInv_def)
  next
    assume "currentIncident ?s' = currentIncident service"
    with assms(1) created show ?thesis by (simp add: startInv_def split: option.splits)
  next
    fix e assume "currentIncident ?s' = Some \<lparr>start = now, cur_error = e\<rparr>"
    with assms(2) created show ?thesis by (simp add: startInv_def)
  qed
qed

lemma startInv_applyUpdates: "startInv (applyUpdates service updates) = startInv service"
  by (simp add: startInv_def applyUpdates_fields split: option.split)

lemma startInv_assign: "startInv (service\<lparr>assignedSlaves := xs\<rparr>) = startInv service"
  by (simp add: startInv_def split: option.split)

lemma startInv_foldl:
  "clockFrom t ops \<Longrightarrow> createdAt service \<le> t \<Longrightarrow> startInv service \<Longrightarrow>
   startInv (foldl (applyOp tz) service ops) \<and> createdAt (foldl (applyOp tz) service ops) = createdAt service"
proof (induction t ops arbitrary: service rule: clockFrom.induct)
  case (1 t)
  then show ?case by simp
next
  case (2 t slaveId report now ops)
  from "2.prems" have clock: "t \<le> now" "clockFrom now ops"
    by simp_all
  let ?s' = "fst (reportService tz service slaveId report now)"
  have "createdAt ?s' \<le> now"
    using "2.prems"(2) clock(1) by (simp add: reportService_createdAt)
  moreover have "startInv ?s'"
    using "2.prems" clock(1) by (intro startInv_reportService) simp_all
  ultimately have "startInv (foldl (applyOp tz) ?s' ops) \<and>
      createdAt (foldl (applyOp tz) ?s' ops) = createdAt ?s'"
    using "2.IH" clock(2) by blast
  then show ?case by (simp add: reportService_createdAt)
next
  case (3 t updates ops)
  have "startInv (foldl (applyOp tz) (applyUpdates service updates) ops) \<and>
      createdAt (foldl (applyOp tz) (applyUpdates service updates) ops) =
        createdAt (applyUpdates service updates)"
    using "3.prems" by (intro "3.IH") (simp_all add: startInv_applyUpdates applyUpdates_fields)
  then show ?case by (simp add: applyUpdates_fields)
next
  case (4 t xs ops)
  have "startInv (foldl (applyOp tz) (service\<lparr>assignedSlaves := xs\<rparr>) ops) \<and>
      createdAt (foldl (applyOp tz) (service\<lparr>assignedSlaves := xs\<rparr>) ops) =
        createdAt (service\<lparr>assignedSlaves := xs\<rparr>)"
    using "4.prems" by (intro "4.IH") (simp_all add: startInv_assign)
  then show ?case by simp
qed

lemma startInv_runOps:
  assumes "clockFrom t0 ops"
  shows "startInv (runOps tz (newService config newId t0) ops)"
    and "createdAt (runOps tz (newService config newId t0) ops) = t0"
proof -
  have "createdAt (newService config newId t0) \<le> t0" "startInv (newService config newId t0)"
    by (simp_all add: newService_def startInv_def)
  from startInv_foldl [OF assms this]
  show "startInv (runOps tz (newService config newId t0) ops)"
    and "createdAt (runOps tz (newService config newId t0) ops) = t0"
    by (simp_all add: runOps_def newService_def)
qed

text \<open>
  Claim C10. When the clock never goes backwards, an open incident started no earlier
  than the service was created. So whenever an incident of at least 10000 ms is closed
  and the percentages are recomputed, the age of the service is positive, as is its
  minimum with 30 days, and both percentages are the finite quotients of the formula.
\<close>

theorem uptime_division_defined:
  assumes "clockFrom t0 ops"
    and "service = runOps tz (newService config newId t0) ops"
    and "currentIncident service = Some inc"
    and "MIN_DOWNTIME_MS \<le> now - start inc"
  shows "createdAt service \<le> start inc
       \<and> 0 < now - createdAt service
       \<and> 0 < min (now - createdAt service) (30 * 24 * 60 * 60 * 1000)
       \<and> uptimePercentage (fst (handleStatusChange tz service UP now)) =
           Num (real_of_int (now - createdAt service
                  - sum_list (map downtimeMs
                      (downtimeLog (fst (handleStatusChange tz service UP now)))))
                / real_of_int (now - createdAt service) * 100)
       \<and> uptimePercentage30d (fst (handleStatusChange tz service UP now)) =
           Num (real_of_int (min (now - createdAt service) (30 * 24 * 60 * 60 * 1000)
                  - sum_list (map downtimeMs
                      (filter (\<lambda>l. now - 30 * 24 * 60 * 60 * 1000 \<le> dateToTime (date l))
                         (downtimeLog (fst (handleStatusChange tz service UP now))))))
                / real_of_int (min (now - createdAt service) (30 * 24 * 60 * 60 * 1000)) * 100)"
proof -
  have "startInv service"
    unfolding assms(2) by (rule startInv_runOps(1) [OF assms(1)])
  with assms(3) have started: "createdAt service \<le> start inc"
    by (simp add: startInv_def)
  with assms(4) have age: "10000 \<le> now - createdAt service"
    by (simp add: MIN_DOWNTIME_MS_def)
  have "statusInv service"
    unfolding assms(2) by (rule runOps_statusInv [OF newService_statusInv])
  with assms(3) have down: "lastStatus service = DOWN"
    by (simp add: statusInv_def)
  from assms(4) have long: "10000 \<le> now - start inc"
    by (simp add: MIN_DOWNTIME_MS_def)
  note eq = handleStatusChange_close_long [OF down assms(3) long]
  have pct: "uptimePercentage (fst (handleStatusChange tz service UP now)) =
               uptimePercentage (recordIncident tz service inc now)"
            "uptimePercentage30d (fst (handleStatusChange tz service UP now)) =
               uptimePercentage30d (recordIncident tz service inc now)"
            "downtimeLog (fst (handleStatusChange tz service UP now)) =
               downtimeLog (recordIncident tz service inc now)"
    by (simp_all add: eq)
  show ?thesis
    unfolding pct uptime_recordIncident
    using started age by (simp add: jsPercent_def)
qed

theorem uptime_division_defined_witness:
  "clockFrom 0 exDownHistory
   \<and> exDown = runOps utcZone (newService exConfig ''s1'' 0) exDownHistory
   \<and> currentIncident exDown = Some \<lparr>start = 1000, cur_error = ''a: timeout''\<rparr>
   \<and> MIN_DOWNTIME_MS \<le> 11000 - start \<lparr>start = 1000, cur_error = ''a: timeout''\<rparr>
   \<and> 0 < 11000 - createdAt exDown
   \<and> uptimePercentage (fst (handleStatusChange utcZone exDown UP 11000)) =
        Num (real_of_int (11000 - createdAt exDown
                  - sum_list (map downtimeMs
                      (downtimeLog (fst (handleStatusChange utcZone exDown UP 11000)))))
                / real_of_int (11000 - createdAt exDown) * 100)"
proof -
  have a: "clockFrom 0 exDownHistory"
    by (simp add: history_defs)
  have b: "exDown = runOps utcZone (newService exConfig ''s1'' 0) exDownHistory"
    by (simp add: exDown_def exService_def)
  have c: "currentIncident exDown = Some \<lparr>start = 1000, cur_error = ''a: timeout''\<rparr>"
    by (simp add: exDown_value)
  have d: "MIN_DOWNTIME_MS \<le> 11000 - start \<lparr>start = 1000, cur_error = ''a: timeout''\<rparr>"
    by (simp add: MIN_DOWNTIME_MS_def)
  from uptime_division_defined [OF a b c d] a b c d show ?thesis by blast
qed

subsection \<open>Unfolding rules and values of the master examples\<close>

lemmas distribute_defs =
  distributeService_def distributeKey_def activeSlaveIds_def serviceCount_def fewestOf_def
  removeFromUnassigned_def distributeEvents_def addService_def handleHeartbeat_def
  heartbeatStep_def needsRedistribution_def sweepSlave_def checkSlaveHealth_def
  distributeServiceSync_def distributeKeySync_def toUnassign_def

lemmas fleet_defs = exSlave_def exFleet_def allOk_def exEmpty_def exAssigned_def exHostUpdate_def

lemma exAssigned_value:
  "exAssigned =
     \<lparr>services = [(''s1'', (newService exConfig ''s1'' 1000)\<lparr>assignedSlaves := [''slave1'']\<rparr>)],
      slaves = [(''slave1'', \<lparr>slave_name = ''one'', lastSeen = 0, slave_services = [''s1'']\<rparr>)]\<rparr>"
  by (simp add: fleet_defs distribute_defs example_defs assignLoop.simps Let_def)

lemma exFleet_distribute:
  "distributeService allOk exFleet exService 10000 =
     (exService\<lparr>assignedSlaves := [''slave2'', ''slave5'', ''slave3'']\<rparr>,
      [(''slave1'', exSlave ''one'' 1000 [''x'', ''y'']),
       (''slave2'', exSlave ''two'' 2000 [''s1'']),
       (''slave3'', exSlave ''three'' 3000 [''x'', ''s1'']),
       (''slave4'', exSlave ''four'' 4000 [''y'']),
       (''slave5'', exSlave ''five'' 5000 [''s1''])],
      [NotifyAssign ''slave2'' ''s1'', NotifyAssign ''slave5'' ''s1'', NotifyAssign ''slave3'' ''s1''])"
  by code_simp

subsection \<open>Editing a service\<close>

text \<open>
  Claim C8. \<^verbatim>\<open>editService\<close> on an http service with an update that has a host key, or
  on an icmp service with an update that has a url key, returns the validation error and
  leaves the whole state as it was; on an unknown id it returns not-found and leaves the
  state as it was. Nothing is sent to any slave in these cases.
\<close>

theorem editService_rejects_before_mutation:
  "(map_of (services st) key = Some service \<and> stype service = http \<and> u_host updates \<noteq> None \<longrightarrow>
      editService deleteOk st key updates now = (Inl CannotUpdateHost, st, []))
 \<and> (map_of (services st) key = Some service \<and> stype service = icmp \<and> u_url updates \<noteq> None \<longrightarrow>
      editService deleteOk st key updates now = (Inl CannotUpdateUrl, st, []))
 \<and> (map_of (services st) key = None \<longrightarrow>
      editService deleteOk st key updates now = (Inl (ServiceNotFound key), st, []))"
  by (simp add: editService_def)

theorem editService_rejects_before_mutation_witness:
  "map_of (services exAssigned) ''s1'' =
      Some ((newService exConfig ''s1'' 1000)\<lparr>assignedSlaves := [''slave1'']\<rparr>)
   \<and> stype ((newService exConfig ''s1'' 1000)\<lparr>assignedSlaves := [''slave1'']\<rparr>) = http
   \<and> u_host exHostUpdate \<noteq> None
   \<and> editService allOk exAssigned ''s1'' exHostUpdate 2000 = (Inl CannotUpdateHost, exAssigned, [])
   \<and> map_of (services exAssigned) ''s2'' = None
   \<and> editService allOk exAssigned ''s2'' exHostUpdate 2000 = (Inl (ServiceNotFound ''s2''), exAssigned, [])"
proof -
  have a: "map_of (services exAssigned) ''s1'' =
      Some ((newService exConfig ''s1'' 1000)\<lparr>assignedSlaves := [''slave1'']\<rparr>)"
    by (simp add: exAssigned_value)
  have b: "stype ((newService exConfig ''s1'' 1000)\<lparr>assignedSlaves := [''slave1'']\<rparr>) = http"
    by (simp add: example_defs)
  have c: "u_host exHostUpdate \<noteq> None"
    by (simp add: exHostUpdate_def)
  have d: "map_of (services exAssigned) ''s2'' = None"
    by (simp add: exAssigned_value)
  from editService_rejects_before_mutation
         [of exAssigned "''s1''" "(newService exConfig ''s1'' 1000)\<lparr>assignedSlaves := [''slave1'']\<rparr>"
             exHostUpdate allOk 2000] a b c
  have e: "editService allOk exAssigned ''s1'' exHostUpdate 2000 = (Inl CannotUpdateHost, exAssigned, [])"
    by blast
  from editService_rejects_before_mutation
         [of exAssigned "''s2''" "(newService exConfig ''s1'' 1000)\<lparr>assignedSlaves := [''slave1'']\<rparr>"
             exHostUpdate allOk 2000] d
  have f: "editService allOk exAssigned ''s2'' exHostUpdate 2000 =
             (Inl (ServiceNotFound ''s2''), exAssigned, [])"
    by blast
  from a b c d e f show ?thesis by blast
qed

subsection \<open>The assignment loop\<close>

lemma foldl_fewestOf_mem: "foldl (fewestOf slaveMap) a rest \<in> set (a # rest)"
proof (induction rest arbitrary: a)
  case Nil
  then show ?case by simp
next
  case (Cons b rest)
  have "fewestOf slaveMap a b = a \<or> fewestOf slaveMap a b = b"
    by (simp add: fewestOf_def)
  with Cons [of "fewestOf slaveMap a b"] show ?case by auto
qed

lemma assignLoop_subset:
  "set (assignLoop slaveMap activeSlaves assigned) \<subseteq> set assigned \<union> set activeSlaves"
proof (induction slaveMap activeSlaves assigned rule: assignLoop.induct)
  case (1 slaveMap activeSlaves assigned)
  show ?case
  proof (cases "length assigned < min 3 (length activeSlaves)")
    case False
    then show ?thesis by (subst assignLoop.simps) auto
  next
    case True
    show ?thesis
    proof (cases "filter (\<lambda>i. i \<notin> set assigned) activeSlaves")
      case Nil
      with True show ?thesis by (subst assignLoop.simps) simp
    next
      case (Cons a rest)
      let ?pick = "foldl (fewestOf slaveMap) a rest"
      have "?pick \<in> set (a # rest)" by (rule foldl_fewestOf_mem)
      with Cons have pick: "?pick \<in> set activeSlaves"
        by (metis filter_is_subset subsetD)
      have "set (assignLoop slaveMap activeSlaves (assigned @ [?pick]))
              \<subseteq> set (assigned @ [?pick]) \<union> set activeSlaves"
        using True Cons by (rule "1.IH")
      with pick True Cons show ?thesis
        by (subst assignLoop.simps) auto
    qed
  qed
qed

lemma assignLoop_done:
  "\<not> length (assignLoop slaveMap activeSlaves assigned) < min 3 (length activeSlaves)
   \<or> filter (\<lambda>i. i \<notin> set (assignLoop slaveMap activeSlaves assigned)) activeSlaves = []"
proof (induction slaveMap activeSlaves assigned rule: assignLoop.induct)
  case (1 slaveMap activeSlaves assigned)
  show ?case
  proof (cases "length assigned < min 3 (length activeSlaves)")
    case False
    then show ?thesis by (subst (1 2) assignLoop.simps) auto
  next
    case True
    show ?thesis
    proof (cases "filter (\<lambda>i. i \<notin> set assigned) activeSlaves")
      case Nil
      with True show ?thesis by (subst (1 2) assignLoop.simps) simp
    next
      case (Cons a rest)
      from "1.IH" [OF True Cons] True Cons show ?thesis
        by (subst (1 2) assignLoop.simps) simp
    qed
  qed
qed

lemma assignLoop_stable:
  assumes "\<not> length assigned < min 3 (length activeSlaves)
           \<or> filter (\<lambda>i. i \<notin> set assigned) activeSlaves = []"
  shows "assignLoop slaveMap activeSlaves assigned = assigned"
  using assms by (subst assignLoop.simps) auto

lemma assignLoop_idem:
  "assignLoop slaveMap' activeSlaves (assignLoop slaveMap activeSlaves assigned) =
     assignLoop slaveMap activeSlaves assigned"
  by (rule assignLoop_stable) (rule assignLoop_done)

lemma assignLoop_distinct:
  "distinct assigned \<Longrightarrow> distinct (assignLoop slaveMap activeSlaves assigned)"
proof (induction slaveMap activeSlaves assigned rule: assignLoop.induct)
  case (1 slaveMap activeSlaves assigned)
  show ?case
  proof (cases "length assigned < min 3 (length activeSlaves)")
    case False
    with "1.prems" show ?thesis by (subst assignLoop.simps) auto
  next
    case True
    show ?thesis
    proof (cases "filter (\<lambda>i. i \<notin> set assigned) activeSlaves")
      case Nil
      with True "1.prems" show ?thesis by (subst assignLoop.simps) simp
    next
      case (Cons a rest)
      let ?pick = "foldl (fewestOf slaveMap) a rest"
      have "?pick \<in> set (filter (\<lambda>i. i \<notin> set assigned) activeSlaves)"
        unfolding Cons by (rule foldl_fewestOf_mem)
      then have "?pick \<notin> set assigned" by simp
      with "1.prems" have "distinct (assigned @ [?pick])" by simp
      with "1.IH" [OF True Cons] True Cons show ?thesis
        by (subst assignLoop.simps) simp
    qed
  qed
qed

lemma assignLoop_length:
  "length assigned \<le> min 3 (length activeSlaves) \<Longrightarrow>
   length (assignLoop slaveMap activeSlaves assigned) \<le> min 3 (length activeSlaves)"
proof (induction slaveMap activeSlaves assigned rule: assignLoop.induct)
  case (1 slaveMap activeSlaves assigned)
  show ?case
  proof (cases "length assigned < min 3 (length activeSlaves)")
    case False
    with "1.prems" show ?thesis by (subst assignLoop.simps) auto
  next
    case True
    show ?thesis
    proof (cases "filter (\<lambda>i. i \<notin> set assigned) activeSlaves")
      case Nil
      with True "1.prems" show ?thesis by (subst assignLoop.simps) simp
    next
      case (Cons a rest)
      from True have "length (assigned @ [foldl (fewestOf slaveMap) a rest])
                        \<le> min 3 (length activeSlaves)"
        by simp
      with "1.IH" [OF True Cons] True Cons show ?thesis
        by (subst assignLoop.simps) simp
    qed
  qed
qed

subsection \<open>Distribution\<close>

lemma registry_update_services:
  "map_of slaveMap k = Some slave \<Longrightarrow>
   registry (AList.update k (slave\<lparr>slave_services := xs\<rparr>) slaveMap) = registry slaveMap"
  by (induction slaveMap) (auto simp: registry_def)

lemma registry_addToAssigned:
  "registry (addToAssigned svcId assigned slaveMap) = registry slaveMap"
  by (induction svcId assigned slaveMap rule: addToAssigned.induct)
     (simp_all add: registry_update_services split: option.split)

lemma registry_removeFromUnassigned:
  "registry (removeFromUnassigned deleteOk svcId assigned slaveMap) = registry slaveMap"
  by (induction slaveMap) (auto simp: registry_def removeFromUnassigned_def)

lemma registry_distributeService:
  "registry (fst (snd (distributeService deleteOk slaveMap service now))) = registry slaveMap"
  by (simp add: distributeService_def Let_def registry_addToAssigned registry_removeFromUnassigned)

lemma activeSlaveIds_registry:
  "activeSlaveIds slaveMap now =
     map fst (filter (\<lambda>(slaveId, n, seen). now - seen < 60000) (registry slaveMap))"
  by (induction slaveMap) (auto simp: activeSlaveIds_def registry_def)

lemma activeSlaveIds_distributeService:
  "activeSlaveIds (fst (snd (distributeService deleteOk slaveMap service now))) now' =
     activeSlaveIds slaveMap now'"
  by (simp add: activeSlaveIds_registry registry_distributeService)

lemma assigned_distributeService:
  "assignedSlaves (fst (distributeService deleteOk slaveMap service now)) =
     (if activeSlaveIds slaveMap now = [] then assignedSlaves service
      else assignLoop slaveMap (activeSlaveIds slaveMap now)
             (filter (\<lambda>i. i \<in> set (activeSlaveIds slaveMap now)) (assignedSlaves service)))"
  by (simp add: distributeService_def Let_def)

lemma assigned_subset_active:
  assumes "activeSlaveIds slaveMap now \<noteq> []"
  shows "set (assignedSlaves (fst (distributeService deleteOk slaveMap service now)))
           \<subseteq> set (activeSlaveIds slaveMap now)"
  using assms
    assignLoop_subset [of slaveMap "activeSlaveIds slaveMap now"
      "filter (\<lambda>i. i \<in> set (activeSlaveIds slaveMap now)) (assignedSlaves service)"]
  by (auto simp: assigned_distributeService)

lemma distinct_activeSlaveIds:
  "distinct (map fst slaveMap) \<Longrightarrow> distinct (activeSlaveIds slaveMap now)"
  by (simp add: activeSlaveIds_def distinct_map_filter)

lemma distinct_subset_length:
  assumes "distinct xs" "set xs \<subseteq> set ys"
  shows "length xs \<le> length ys"
proof -
  have "length xs = card (set xs)" using assms(1) by (simp add: distinct_card)
  also have "\<dots> \<le> card (set ys)" using assms(2) by (simp add: card_mono)
  also have "\<dots> \<le> length ys" by (rule card_length)
  finally show ?thesis .
qed

lemma distribute_with_active_slaves:
  assumes "activeSlaveIds slaveMap now \<noteq> []"
    and "distinct (assignedSlaves service)" and "length (assignedSlaves service) \<le> 3"
  shows "set (assignedSlaves (fst (distributeService deleteOk slaveMap service now)))
           \<subseteq> set (activeSlaveIds slaveMap now)"
    and "distinct (assignedSlaves (fst (distributeService deleteOk slaveMap service now)))"
    and "length (assignedSlaves (fst (distributeService deleteOk slaveMap service now)))
           \<le> min 3 (length (activeSlaveIds slaveMap now))"
proof -
  let ?active = "activeSlaveIds slaveMap now"
  let ?kept = "filter (\<lambda>i. i \<in> set ?active) (assignedSlaves service)"
  have eq: "assignedSlaves (fst (distributeService deleteOk slaveMap service now)) =
              assignLoop slaveMap ?active ?kept"
    using assms(1) by (simp add: assigned_distributeService)
  show "set (assignedSlaves (fst (distributeService deleteOk slaveMap service now))) \<subseteq> set ?active"
    by (rule assigned_subset_active [OF assms(1)])
  have dk: "distinct ?kept" using assms(2) by simp
  then show "distinct (assignedSlaves (fst (distributeService deleteOk slaveMap service now)))"
    unfolding eq by (rule assignLoop_distinct)
  have "length ?kept \<le> length ?active"
    by (rule distinct_subset_length [OF dk]) auto
  moreover have "length ?kept \<le> 3"
    using assms(3) length_filter_le [of "\<lambda>i. i \<in> set ?active" "assignedSlaves service"] by linarith
  ultimately have "length ?kept \<le> min 3 (length ?active)" by simp
  then show "length (assignedSlaves (fst (distributeService deleteOk slaveMap service now)))
           \<le> min 3 (length ?active)"
    unfolding eq by (rule assignLoop_length)
qed

text \<open>
  Claim C9. A first call of \<^verbatim>\<open>distributeService\<close> yields a service and a slave
  table. A second call on these, at a time when the same slaves are active as at the
  first call, leaves the assignment of the service as the first call made it.
\<close>

theorem distribute_idempotent:
  assumes "distributeService deleteOk slaveMap service now = (service1, slaveMap1, evs1)"
    and "activeSlaveIds slaveMap now' = activeSlaveIds slaveMap now"
  shows "assignedSlaves (fst (distributeService deleteOk' slaveMap1 service1 now')) =
           assignedSlaves service1"
proof -
  let ?active = "activeSlaveIds slaveMap now"
  have s1: "service1 = fst (distributeService deleteOk slaveMap service now)"
    and m1: "slaveMap1 = fst (snd (distributeService deleteOk slaveMap service now))"
    by (simp_all add: assms(1))
  have active1: "activeSlaveIds slaveMap1 now' = ?active"
    unfolding m1 by (simp add: activeSlaveIds_distributeService assms(2))
  show ?thesis
  proof (cases "?active = []")
    case True
    with active1 show ?thesis by (simp add: assigned_distributeService)
  next
    case False
    let ?kept = "filter (\<lambda>i. i \<in> set ?active) (assignedSlaves service)"
    have a1: "assignedSlaves service1 = assignLoop slaveMap ?active ?kept"
      unfolding s1 using False by (simp add: assigned_distributeService)
    have "set (assignedSlaves service1) \<subseteq> set ?active"
      unfolding s1 by (rule assigned_subset_active [OF False])
    then have kept1: "filter (\<lambda>i. i \<in> set ?active) (assignedSlaves service1) = assignedSlaves service1"
      by (auto simp: filter_id_conv)
    have "assignedSlaves (fst (distributeService deleteOk' slaveMap1 service1 now')) =
            assignLoop slaveMap1 ?active (assignedSlaves service1)"
      using False active1 kept1 by (simp add: assigned_distributeService)
    also have "\<dots> = assignedSlaves service1"
      unfolding a1 by (rule assignLoop_idem)
    finally show ?thesis .
  qed
qed

theorem distribute_idempotent_witness:
  "distributeService allOk exFleet exService 10000 =
     (exService\<lparr>assignedSlaves := [''slave2'', ''slave5'', ''slave3'']\<rparr>,
      [(''slave1'', exSlave ''one'' 1000 [''x'', ''y'']),
       (''slave2'', exSlave ''two'' 2000 [''s1'']),
       (''slave3'', exSlave ''three'' 3000 [''x'', ''s1'']),
       (''slave4'', exSlave ''four'' 4000 [''y'']),
       (''slave5'', exSlave ''five'' 5000 [''s1''])],
      [NotifyAssign ''slave2'' ''s1'', NotifyAssign ''slave5'' ''s1'', NotifyAssign ''slave3'' ''s1''])
   \<and> activeSlaveIds exFleet 20000 = activeSlaveIds exFleet 10000
   \<and> assignedSlaves (fst (distributeService allOk
         [(''slave1'', exSlave ''one'' 1000 [''x'', ''y'']),
          (''slave2'', exSlave ''two'' 2000 [''s1'']),
          (''slave3'', exSlave ''three'' 3000 [''x'', ''s1'']),
          (''slave4'', exSlave ''four'' 4000 [''y'']),
          (''slave5'', exSlave ''five'' 5000 [''s1''])]
         (exService\<lparr>assignedSlaves := [''slave2'', ''slave5'', ''slave3'']\<rparr>) 20000))
       = [''slave2'', ''slave5'', ''slave3'']"
proof -
  have a: "activeSlaveIds exFleet 20000 = activeSlaveIds exFleet 10000"
    by (simp add: fleet_defs activeSlaveIds_def)
  from distribute_idempotent [OF exFleet_distribute a, of allOk] exFleet_distribute a
  show ?thesis by simp
qed

text \<open>
  Claim C5, at an input where no slave is active. Slave 1 sent a heartbeat at time 0 and
  the service created at time 1000 was assigned to it. At time 61000 slave 1 is inactive
  and no slave is active: \<^verbatim>\<open>distributeService\<close> logs the warning and returns at once, so
  the assignment is still slave 1, an inactive agent, and its size 1 exceeds
  \<open>min 3 0\<close>. The health sweep at that time goes through this call and changes nothing.
  Once slave 1 has been evicted, the heartbeat of a new slave 2 does not redistribute the
  service either: it stays assigned to the evicted slave. (With at least one active slave
  the assignment is a duplicate-free set of active slaves of size at most
  \<open>min 3\<close> of their number, see \<open>distribute_with_active_slaves\<close>.)
\<close>

theorem distribute_without_active_slaves:
  "map_of (services exAssigned) ''s1'' =
      Some ((newService exConfig ''s1'' 1000)\<lparr>assignedSlaves := [''slave1'']\<rparr>)
   \<and> activeSlaveIds (slaves exAssigned) 61000 = []
   \<and> distributeService allOk (slaves exAssigned)
        ((newService exConfig ''s1'' 1000)\<lparr>assignedSlaves := [''slave1'']\<rparr>) 61000
      = ((newService exConfig ''s1'' 1000)\<lparr>assignedSlaves := [''slave1'']\<rparr>,
         slaves exAssigned, [WarnNoActiveSlaves ''s1''])
   \<and> checkSlaveHealth exAssigned 61000 =
        (exAssigned, [WarnSlaveDown ''slave1'', WarnNoActiveSlaves ''s1''], [])
   \<and> handleHeartbeat allOk (fst (checkSlaveHealth exAssigned 300001)) ''slave2'' ''two'' [] 302000
      = (\<lparr>services = [(''s1'', (newService exConfig ''s1'' 1000)\<lparr>assignedSlaves := [''slave1'']\<rparr>)],
          slaves = [(''slave2'', \<lparr>slave_name = ''two'', lastSeen = 302000, slave_services = []\<rparr>)]\<rparr>,
         [])"
  by (simp add: exAssigned_value distribute_defs example_defs assignLoop.simps Let_def allOk_def)

subsection \<open>The part of a distribution that runs inside the sweep\<close>

text \<open>
  Up to its first \<^verbatim>\<open>await\<close> a call of \<^verbatim>\<open>distributeService\<close> stores the same
  assignment as the awaited call does. In the slave table it changes only the lists of
  services of active slaves: names, heartbeat times and the entries of inactive slaves
  stay as they are.
\<close>

lemma map_of_registry:
  "map_of (registry slaveMap) k =
     map_option (\<lambda>slave. (slave_name slave, lastSeen slave)) (map_of slaveMap k)"
  by (induction slaveMap) (auto simp: registry_def)

lemma registry_delete:
  "registry (AList.delete k slaveMap) = filter (\<lambda>entry. fst entry \<noteq> k) (registry slaveMap)"
  by (induction slaveMap) (auto simp: registry_def)

lemma keys_registry: "map fst (registry slaveMap) = map fst slaveMap"
  by (induction slaveMap) (auto simp: registry_def)

lemma distributeServiceSync_service:
  "fst (distributeServiceSync slaveMap service now) =
     fst (distributeService deleteOk slaveMap service now)"
  by (simp add: distributeServiceSync_def distributeService_def Let_def split: list.split)

lemma distributeServiceSync_slaves:
  "fst (snd (distributeServiceSync slaveMap service now)) =
     (if activeSlaveIds slaveMap now = [] then slaveMap
      else addToAssigned (sid service)
             (assignedSlaves (fst (distributeService deleteOk slaveMap service now))) slaveMap)"
  by (simp add: distributeServiceSync_def distributeService_def Let_def split: list.split)

lemma registry_distributeServiceSync:
  "registry (fst (snd (distributeServiceSync slaveMap service now))) = registry slaveMap"
  by (simp add: distributeServiceSync_slaves [where deleteOk = "\<lambda>k. True"] registry_addToAssigned)

lemma isSweepEvent_distributeServiceSync:
  "filter isSweepEvent (fst (snd (snd (distributeServiceSync slaveMap service now)))) = []"
  by (auto simp: distributeServiceSync_def Let_def isSweepEvent_def filter_empty_conv
      split: list.split)

lemma map_of_update_other_key:
  "x \<noteq> k \<Longrightarrow> map_of (AList.update k v slaveMap) x = map_of slaveMap x"
  by (simp add: update_conv')

lemma map_of_addToAssigned:
  "x \<notin> set assigned \<Longrightarrow> map_of (addToAssigned svcId assigned slaveMap) x = map_of slaveMap x"
proof (induction svcId assigned slaveMap rule: addToAssigned.induct)
  case (1 svcId slaveMap)
  then show ?case by simp
next
  case (2 svcId slaveId rest slaveMap)
  then have "x \<noteq> slaveId" and "x \<notin> set rest" by auto
  with "2.IH" show ?case
    by (simp add: map_of_update_other_key split: option.split)
qed

lemma map_of_distributeServiceSync:
  assumes "x \<notin> set (activeSlaveIds slaveMap now)"
  shows "map_of (fst (snd (distributeServiceSync slaveMap service now))) x = map_of slaveMap x"
proof (cases "activeSlaveIds slaveMap now = []")
  case True
  then show ?thesis
    by (simp add: distributeServiceSync_slaves [where deleteOk = "\<lambda>k. True"])
next
  case False
  from assigned_subset_active [OF False, of "\<lambda>k. True" service] assms
  have "x \<notin> set (assignedSlaves (fst (distributeService (\<lambda>k. True) slaveMap service now)))"
    by auto
  with False show ?thesis
    by (simp add: distributeServiceSync_slaves [where deleteOk = "\<lambda>k. True"] map_of_addToAssigned)
qed

lemma distributeKeySync_None:
  "map_of (services (fst acc)) key = None \<Longrightarrow> distributeKeySync now key acc = acc"
  by (cases acc) (simp add: distributeKeySync_def)

lemma distributeKeySync_Some:
  assumes "map_of (services (fst acc)) key = Some service"
  shows "fst (distributeKeySync now key acc) =
           (fst acc)\<lparr>services := AList.update key
                         (fst (distributeServiceSync (slaves (fst acc)) service now))
                         (services (fst acc)),
                     slaves := fst (snd (distributeServiceSync (slaves (fst acc)) service now))\<rparr>"
    and "fst (snd (distributeKeySync now key acc)) =
           fst (snd acc) @ fst (snd (snd (distributeServiceSync (slaves (fst acc)) service now)))"
    and "snd (snd (distributeKeySync now key acc)) =
           snd (snd acc) @ snd (snd (snd (distributeServiceSync (slaves (fst acc)) service now)))"
  using assms
  by (cases acc; cases "distributeServiceSync (slaves (fst acc)) service now";
      simp add: distributeKeySync_def)+

lemma distributeKeySync_registry:
  "registry (slaves (fst (distributeKeySync now key acc))) = registry (slaves (fst acc))"
proof (cases "map_of (services (fst acc)) key")
  case None
  then show ?thesis by (simp add: distributeKeySync_None)
next
  case (Some service)
  then show ?thesis
    by (simp add: distributeKeySync_Some(1) registry_distributeServiceSync)
qed

lemma distributeKeySync_events:
  "filter isSweepEvent (fst (snd (distributeKeySync now key acc))) =
     filter isSweepEvent (fst (snd acc))"
proof (cases "map_of (services (fst acc)) key")
  case None
  then show ?thesis by (simp add: distributeKeySync_None)
next
  case (Some service)
  then show ?thesis
    by (simp add: distributeKeySync_Some(2) isSweepEvent_distributeServiceSync)
qed

lemma distributeKeySync_active:
  "activeSlaveIds (slaves (fst (distributeKeySync now key acc))) now' =
     activeSlaveIds (slaves (fst acc)) now'"
  by (simp add: activeSlaveIds_registry distributeKeySync_registry)

lemma distributeKeySync_inactive:
  assumes "x \<notin> set (activeSlaveIds (slaves (fst acc)) now)"
  shows "map_of (slaves (fst (distributeKeySync now key acc))) x = map_of (slaves (fst acc)) x"
proof (cases "map_of (services (fst acc)) key")
  case None
  then show ?thesis by (simp add: distributeKeySync_None)
next
  case (Some service)
  with assms show ?thesis
    by (simp add: distributeKeySync_Some(1) map_of_distributeServiceSync)
qed

lemma distributeKeySync_services:
  "map_of (services (fst (distributeKeySync now key acc))) key' =
     (if key' = key
      then map_option (\<lambda>service. fst (distributeServiceSync (slaves (fst acc)) service now))
             (map_of (services (fst acc)) key)
      else map_of (services (fst acc)) key')"
proof (cases "map_of (services (fst acc)) key")
  case None
  then show ?thesis by (simp add: distributeKeySync_None)
next
  case (Some service)
  then show ?thesis
    by (simp add: distributeKeySync_Some(1) update_conv')
qed

lemma all_active_assigned:
  assumes "distinct active" and "filter (\<lambda>i. i \<notin> set assigned) active = []"
  shows "length active \<le> length assigned"
proof -
  from assms(2) have "set active \<subseteq> set assigned"
    by (auto simp: filter_empty_conv)
  with assms(1) show ?thesis by (rule distinct_subset_length)
qed

lemma assignLoop_fills:
  assumes "distinct activeSlaves"
  shows "min 3 (length activeSlaves) \<le> length (assignLoop slaveMap activeSlaves assigned)"
proof -
  from assignLoop_done [of slaveMap activeSlaves assigned]
  show ?thesis
  proof
    assume "\<not> length (assignLoop slaveMap activeSlaves assigned) < min 3 (length activeSlaves)"
    then show ?thesis by linarith
  next
    assume "filter (\<lambda>i. i \<notin> set (assignLoop slaveMap activeSlaves assigned)) activeSlaves = []"
    from all_active_assigned [OF assms this] show ?thesis by simp
  qed
qed

lemma distributeKeySync_establishes:
  assumes "map_of (services (fst acc)) key = Some service"
    and "activeSlaveIds (slaves (fst acc)) now = active" and "active \<noteq> []"
    and "distinct active"
  shows "redistributed active (fst (distributeKeySync now key acc)) key"
proof -
  let ?m = "slaves (fst acc)"
  let ?s' = "fst (distributeService (\<lambda>k. True) ?m service now)"
  from assms(2,3) have ne: "activeSlaveIds ?m now \<noteq> []" by simp
  have sub: "set (assignedSlaves ?s') \<subseteq> set active"
    using assigned_subset_active [OF ne, of "\<lambda>k. True" service] assms(2) by simp
  have "assignedSlaves ?s' =
          assignLoop ?m active (filter (\<lambda>i. i \<in> set active) (assignedSlaves service))"
    using ne assms(2) by (simp add: assigned_distributeService)
  with assignLoop_fills [OF assms(4)]
  have fills: "min 3 (length active) \<le> length (assignedSlaves ?s')" by simp
  have "map_of (services (fst (distributeKeySync now key acc))) key = Some ?s'"
    using assms(1)
    by (simp add: distributeKeySync_services
        distributeServiceSync_service [where deleteOk = "\<lambda>k. True"])
  with sub fills show ?thesis by (simp add: redistributed_def)
qed

lemma distributeKeySync_preserves:
  assumes "redistributed active (fst acc) key"
    and "activeSlaveIds (slaves (fst acc)) now = active" and "active \<noteq> []"
    and "distinct active"
  shows "redistributed active (fst (distributeKeySync now key' acc)) key"
proof (cases "key' = key")
  case True
  from assms(1) obtain service where "map_of (services (fst acc)) key = Some service"
    by (auto simp: redistributed_def split: option.splits)
  from distributeKeySync_establishes [OF this assms(2,3,4)] True show ?thesis by simp
next
  case False
  with assms(1) show ?thesis
    by (simp add: redistributed_def distributeKeySync_services)
qed

lemma fold_distributeKeySync_registry:
  "registry (slaves (fst (fold (distributeKeySync now) keys acc))) = registry (slaves (fst acc))"
  by (induction keys arbitrary: acc) (simp_all add: distributeKeySync_registry)

lemma fold_distributeKeySync_events:
  "filter isSweepEvent (fst (snd (fold (distributeKeySync now) keys acc))) =
     filter isSweepEvent (fst (snd acc))"
  by (induction keys arbitrary: acc) (simp_all add: distributeKeySync_events)

lemma fold_distributeKeySync_active:
  "activeSlaveIds (slaves (fst (fold (distributeKeySync now) keys acc))) now' =
     activeSlaveIds (slaves (fst acc)) now'"
  by (simp add: activeSlaveIds_registry fold_distributeKeySync_registry)

lemma fold_distributeKeySync_inactive:
  "x \<notin> set (activeSlaveIds (slaves (fst acc)) now) \<Longrightarrow>
   map_of (slaves (fst (fold (distributeKeySync now) keys acc))) x = map_of (slaves (fst acc)) x"
proof (induction keys arbitrary: acc)
  case Nil
  then show ?case by simp
next
  case (Cons key keys)
  from Cons.prems
  have "x \<notin> set (activeSlaveIds (slaves (fst (distributeKeySync now key acc))) now)"
    by (simp add: distributeKeySync_active)
  from Cons.IH [OF this] Cons.prems show ?case
    by (simp add: distributeKeySync_inactive)
qed

lemma fold_distributeKeySync_known:
  "(map_of (services (fst (fold (distributeKeySync now) keys acc))) key = None) =
     (map_of (services (fst acc)) key = None)"
  by (induction keys arbitrary: acc) (simp_all add: distributeKeySync_services)

lemma fold_distributeKeySync_preserves:
  assumes "redistributed active (fst acc) key"
    and "activeSlaveIds (slaves (fst acc)) now = active" and "active \<noteq> []"
    and "distinct active"
  shows "redistributed active (fst (fold (distributeKeySync now) keys acc)) key"
  using assms(1,2)
proof (induction keys arbitrary: acc)
  case Nil
  then show ?case by simp
next
  case (Cons key' keys)
  have "redistributed active (fst (distributeKeySync now key' acc)) key"
    by (rule distributeKeySync_preserves [OF Cons.prems(1,2) assms(3,4)])
  moreover have "activeSlaveIds (slaves (fst (distributeKeySync now key' acc))) now = active"
    using Cons.prems(2) by (simp add: distributeKeySync_active)
  ultimately show ?case
    using Cons.IH by simp
qed

lemma fold_distributeKeySync_establishes:
  assumes "key \<in> set keys" and "map_of (services (fst acc)) key \<noteq> None"
    and "activeSlaveIds (slaves (fst acc)) now = active" and "active \<noteq> []"
    and "distinct active"
  shows "redistributed active (fst (fold (distributeKeySync now) keys acc)) key"
  using assms(1,2,3)
proof (induction keys arbitrary: acc)
  case Nil
  then show ?case by simp
next
  case (Cons key' keys)
  let ?acc1 = "distributeKeySync now key' acc"
  have active1: "activeSlaveIds (slaves (fst ?acc1)) now = active"
    using Cons.prems(3) by (simp add: distributeKeySync_active)
  show ?case
  proof (cases "key' = key")
    case True
    from Cons.prems(2) obtain service where "map_of (services (fst acc)) key = Some service"
      by auto
    from distributeKeySync_establishes [OF this Cons.prems(3) assms(4,5)] True
    have "redistributed active (fst ?acc1) key" by simp
    from fold_distributeKeySync_preserves [OF this active1 assms(4,5)]
    show ?thesis by simp
  next
    case False
    with Cons.prems(1) have "key \<in> set keys" by simp
    moreover have "map_of (services (fst ?acc1)) key \<noteq> None"
      using Cons.prems(2) False by (simp add: distributeKeySync_services)
    ultimately show ?thesis
      using Cons.IH active1 by simp
  qed
qed

subsection \<open>The health sweep\<close>

text \<open>
  One iteration of the sweep changes the registry only by removing its own slave, when
  that slave is older than 300000 ms. The active slaves are the same before and after, so
  an assignment made by one iteration is still a redistribution over the active slaves
  when the sweep returns.
\<close>

lemma sweepSlave_skip:
  assumes "map_of (slaves (fst acc)) k = None \<or>
           (\<exists>info. map_of (slaves (fst acc)) k = Some info \<and> \<not> 60000 < now - lastSeen info)"
  shows "sweepSlave now k acc = acc"
  using assms by (auto simp: sweepSlave_def)

lemma sweepSlave_stale:
  assumes "map_of (slaves (fst acc)) k = Some info" and "60000 < now - lastSeen info"
    and "swept = fold (distributeKeySync now) (slave_services info)
                   (fst acc, fst (snd acc) @ [WarnSlaveDown k], snd (snd acc))"
  shows "sweepSlave now k acc =
           (if 300000 < now - lastSeen info
            then ((fst swept)\<lparr>slaves := AList.delete k (slaves (fst swept))\<rparr>,
                  fst (snd swept) @ [WarnSlaveRemoved k, AlertSlaveOffline k (slave_name info)],
                  snd (snd swept))
            else swept)"
  using assms(1,2) unfolding assms(3)
  by (simp add: sweepSlave_def split: prod.split)

lemma sweepSlave_registry:
  "registry (slaves (fst (sweepSlave now k acc))) =
     (case map_of (registry (slaves (fst acc))) k of
        None \<Rightarrow> registry (slaves (fst acc))
      | Some (n, seen) \<Rightarrow>
          if 300000 < now - seen
          then filter (\<lambda>entry. fst entry \<noteq> k) (registry (slaves (fst acc)))
          else registry (slaves (fst acc)))"
proof (cases "map_of (slaves (fst acc)) k")
  case None
  then show ?thesis by (simp add: sweepSlave_skip map_of_registry)
next
  case (Some info)
  show ?thesis
  proof (cases "60000 < now - lastSeen info")
    case False
    with Some have "sweepSlave now k acc = acc" by (simp add: sweepSlave_skip)
    with Some False show ?thesis by (simp add: map_of_registry)
  next
    case True
    from sweepSlave_stale [OF Some True refl] Some True show ?thesis
      by (simp add: map_of_registry registry_delete fold_distributeKeySync_registry)
  qed
qed

lemma sweepSlave_events:
  "filter isSweepEvent (fst (snd (sweepSlave now k acc))) =
     filter isSweepEvent (fst (snd acc)) @ sweepEvents now (registry (slaves (fst acc))) k"
proof (cases "map_of (slaves (fst acc)) k")
  case None
  then show ?thesis by (simp add: sweepSlave_skip sweepEvents_def map_of_registry)
next
  case (Some info)
  show ?thesis
  proof (cases "60000 < now - lastSeen info")
    case False
    with Some have "sweepSlave now k acc = acc" by (simp add: sweepSlave_skip)
    with Some False show ?thesis by (simp add: sweepEvents_def map_of_registry)
  next
    case True
    from sweepSlave_stale [OF Some True refl] Some True show ?thesis
      by (simp add: map_of_registry sweepEvents_def fold_distributeKeySync_events isSweepEvent_def)
  qed
qed

lemma sweepSlave_known:
  "(map_of (services (fst (sweepSlave now k acc))) key = None) =
     (map_of (services (fst acc)) key = None)"
proof (cases "map_of (slaves (fst acc)) k")
  case None
  then show ?thesis by (simp add: sweepSlave_skip)
next
  case (Some info)
  show ?thesis
  proof (cases "60000 < now - lastSeen info")
    case False
    with Some show ?thesis by (simp add: sweepSlave_skip)
  next
    case True
    from sweepSlave_stale [OF Some True refl] show ?thesis
      by (simp add: fold_distributeKeySync_known)
  qed
qed

lemma map_of_filter_other:
  "k' \<noteq> k \<Longrightarrow> map_of (filter (\<lambda>entry. fst entry \<noteq> k) reg) k' = map_of reg k'"
  by (induction reg) auto

lemma sweep_step_filter:
  assumes "distinct (map fst reg)" and "k \<notin> set ks"
  shows "filter (\<lambda>entry. \<not> evicted now ks entry)
           (case map_of reg k of
              None \<Rightarrow> reg
            | Some (n, seen) \<Rightarrow>
                if 300000 < now - seen then filter (\<lambda>entry. fst entry \<noteq> k) reg else reg)
         = filter (\<lambda>entry. \<not> evicted now (k # ks) entry) reg"
proof (cases "map_of reg k")
  case None
  then have "\<forall>entry \<in> set reg. fst entry \<noteq> k"
    by (auto simp: map_of_eq_None_iff)
  then have "\<forall>entry \<in> set reg. evicted now (k # ks) entry = evicted now ks entry"
    by (auto simp: evicted_def)
  with None show ?thesis
    by (simp cong: filter_cong)
next
  case (Some v)
  obtain n seen where v: "v = (n, seen)" by (cases v)
  have only: "\<forall>entry \<in> set reg. fst entry = k \<longrightarrow> entry = (k, n, seen)"
  proof (intro ballI impI)
    fix entry assume mem: "entry \<in> set reg" and key: "fst entry = k"
    from key have entry: "entry = (k, snd entry)" by (simp add: prod_eq_iff)
    with mem have "(k, snd entry) \<in> set reg" by simp
    from map_of_is_SomeI [OF assms(1) this] Some v have "snd entry = (n, seen)" by simp
    with entry show "entry = (k, n, seen)" by simp
  qed
  show ?thesis
  proof (cases "300000 < now - seen")
    case True
    have "\<forall>entry \<in> set reg.
            (fst entry \<noteq> k \<and> \<not> evicted now ks entry) = (\<not> evicted now (k # ks) entry)"
      using only True by (auto simp: evicted_def)
    with Some v True show ?thesis
      by (simp cong: filter_cong)
  next
    case False
    have "\<forall>entry \<in> set reg. evicted now (k # ks) entry = evicted now ks entry"
      using only False assms(2) by (auto simp: evicted_def)
    with Some v False show ?thesis
      by (simp cong: filter_cong)
  qed
qed

lemma sweep_step_distinct:
  "distinct (map fst reg) \<Longrightarrow>
   distinct (map fst (case map_of reg k of
              None \<Rightarrow> reg
            | Some (n, seen) \<Rightarrow>
                if 300000 < now - seen then filter (\<lambda>entry. fst entry \<noteq> k) reg else reg))"
  by (simp add: distinct_map_filter split: option.split)

lemma sweep_step_lookup:
  "k' \<noteq> k \<Longrightarrow>
   map_of (case map_of reg k of
              None \<Rightarrow> reg
            | Some (n, seen) \<Rightarrow>
                if 300000 < now - seen then filter (\<lambda>entry. fst entry \<noteq> k) reg else reg) k'
     = map_of reg k'"
  by (simp add: map_of_filter_other split: option.split)

lemma fold_sweepSlave:
  assumes "distinct (map fst (registry (slaves (fst acc))))" and "distinct ks"
  shows "registry (slaves (fst (fold (sweepSlave now) ks acc))) =
           filter (\<lambda>entry. \<not> evicted now ks entry) (registry (slaves (fst acc)))
       \<and> filter isSweepEvent (fst (snd (fold (sweepSlave now) ks acc))) =
           filter isSweepEvent (fst (snd acc)) @
           concat (map (sweepEvents now (registry (slaves (fst acc)))) ks)"
  using assms
proof (induction ks arbitrary: acc)
  case Nil
  then show ?case by (simp add: evicted_def)
next
  case (Cons k ks)
  let ?reg = "registry (slaves (fst acc))"
  let ?acc1 = "sweepSlave now k acc"
  let ?reg1 = "registry (slaves (fst ?acc1))"
  from Cons.prems have k: "k \<notin> set ks" and ks: "distinct ks" by simp_all
  have d1: "distinct (map fst ?reg1)"
    unfolding sweepSlave_registry by (rule sweep_step_distinct [OF Cons.prems(1)])
  note ih = Cons.IH [OF d1 ks]
  have same: "map (sweepEvents now ?reg1) ks = map (sweepEvents now ?reg) ks"
  proof (rule map_cong [OF refl])
    fix k' assume "k' \<in> set ks"
    with k have "k' \<noteq> k" by auto
    then show "sweepEvents now ?reg1 k' = sweepEvents now ?reg k'"
      unfolding sweepSlave_registry by (simp add: sweepEvents_def sweep_step_lookup)
  qed
  have "registry (slaves (fst (fold (sweepSlave now) (k # ks) acc))) =
          filter (\<lambda>entry. \<not> evicted now ks entry) ?reg1"
    using ih by simp
  also have "\<dots> = filter (\<lambda>entry. \<not> evicted now (k # ks) entry) ?reg"
    unfolding sweepSlave_registry by (rule sweep_step_filter [OF Cons.prems(1) k])
  finally have part1: "registry (slaves (fst (fold (sweepSlave now) (k # ks) acc))) =
      filter (\<lambda>entry. \<not> evicted now (k # ks) entry) ?reg" .
  have part2: "filter isSweepEvent (fst (snd (fold (sweepSlave now) (k # ks) acc))) =
      filter isSweepEvent (fst (snd acc)) @ concat (map (sweepEvents now ?reg) (k # ks))"
    using ih same by (simp add: sweepSlave_events)
  from part1 part2 show ?case by blast
qed

lemma checkSlaveHealth_summary:
  assumes "distinct (map fst (slaves st))"
  shows "registry (slaves (fst (checkSlaveHealth st now))) =
           filter (\<lambda>(k, n, seen). \<not> 300000 < now - seen) (registry (slaves st))"
    and "filter isSweepEvent (fst (snd (checkSlaveHealth st now))) =
           concat (map (sweepEvents now (registry (slaves st))) (map fst (slaves st)))"
proof -
  have d: "distinct (map fst (registry (slaves (fst (st, [], [])))))"
    using assms by (simp add: keys_registry)
  note f = fold_sweepSlave [OF d assms, of now]
  have "\<forall>entry \<in> set (registry (slaves st)).
          evicted now (map fst (slaves st)) entry = (case entry of (k, n, seen) \<Rightarrow> 300000 < now - seen)"
    by (force simp: evicted_def registry_def)
  then have "filter (\<lambda>entry. \<not> evicted now (map fst (slaves st)) entry) (registry (slaves st)) =
         filter (\<lambda>(k, n, seen). \<not> 300000 < now - seen) (registry (slaves st))"
    by (intro filter_cong refl) auto
  with f show "registry (slaves (fst (checkSlaveHealth st now))) =
           filter (\<lambda>(k, n, seen). \<not> 300000 < now - seen) (registry (slaves st))"
    by (simp add: checkSlaveHealth_def)
  from f show "filter isSweepEvent (fst (snd (checkSlaveHealth st now))) =
           concat (map (sweepEvents now (registry (slaves st))) (map fst (slaves st)))"
    by (simp add: checkSlaveHealth_def)
qed

lemma map_of_filter_distinct:
  assumes "distinct (map fst reg)" and "map_of reg k = Some v"
  shows "map_of (filter P reg) k = (if P (k, v) then Some v else None)"
proof (cases "P (k, v)")
  case True
  from assms have "(k, v) \<in> set reg" by (simp add: map_of_eq_Some_iff)
  with True have "(k, v) \<in> set (filter P reg)" by simp
  moreover have "distinct (map fst (filter P reg))"
    using assms(1) by (simp add: distinct_map_filter)
  ultimately have "map_of (filter P reg) k = Some v" by (rule map_of_is_SomeI [rotated])
  with True show ?thesis by simp
next
  case False
  have "k \<notin> fst ` set (filter P reg)"
  proof
    assume "k \<in> fst ` set (filter P reg)"
    then obtain w where w: "(k, w) \<in> set reg" "P (k, w)" by auto
    from map_of_is_SomeI [OF assms(1) w(1)] assms(2) have "w = v" by simp
    with w(2) False show False by simp
  qed
  then have "map_of (filter P reg) k = None" by (simp add: map_of_eq_None_iff)
  with False show ?thesis by simp
qed

lemma offline_in_sweepEvents:
  "AlertSlaveOffline k n \<in> set (sweepEvents now reg k') \<longleftrightarrow>
     k' = k \<and> (\<exists>seen. map_of reg k = Some (n, seen) \<and> 300000 < now - seen)"
proof (cases "map_of reg k'")
  case None
  then show ?thesis by (auto simp: sweepEvents_def)
next
  case (Some v)
  then show ?thesis by (cases v) (auto simp: sweepEvents_def)
qed

lemma down_in_sweepEvents:
  "WarnSlaveDown k \<in> set (sweepEvents now reg k') \<longleftrightarrow>
     k' = k \<and> (\<exists>n seen. map_of reg k = Some (n, seen) \<and> 60000 < now - seen)"
proof (cases "map_of reg k'")
  case None
  then show ?thesis by (auto simp: sweepEvents_def)
next
  case (Some v)
  then show ?thesis by (cases v) (auto simp: sweepEvents_def)
qed

lemma sweep_step_active:
  assumes "distinct (map fst reg)"
  shows "filter (\<lambda>(slaveId, n, seen). (now :: int) - seen < 60000)
           (case map_of reg k of
              None \<Rightarrow> reg
            | Some (n, seen) \<Rightarrow>
                if 300000 < now - seen then filter (\<lambda>entry. fst entry \<noteq> k) reg else reg)
         = filter (\<lambda>(slaveId, n, seen). now - seen < 60000) reg"
proof (cases "map_of reg k")
  case None
  then show ?thesis by simp
next
  case (Some v)
  obtain n seen where v: "v = (n, seen)" by (cases v)
  show ?thesis
  proof (cases "300000 < now - seen")
    case False
    with Some v show ?thesis by simp
  next
    case True
    have "\<forall>entry \<in> set reg.
            (fst entry \<noteq> k \<and> (case entry of (slaveId, n, seen) \<Rightarrow> now - seen < 60000)) =
            (case entry of (slaveId, n, seen) \<Rightarrow> now - seen < 60000)"
    proof
      fix entry assume mem: "entry \<in> set reg"
      show "(fst entry \<noteq> k \<and> (case entry of (slaveId, n, seen) \<Rightarrow> now - seen < 60000)) =
            (case entry of (slaveId, n, seen) \<Rightarrow> now - seen < 60000)"
      proof (cases "fst entry = k")
        case False
        then show ?thesis by simp
      next
        case key: True
        then have entry: "entry = (k, snd entry)" by (simp add: prod_eq_iff)
        with mem have "(k, snd entry) \<in> set reg" by simp
        from map_of_is_SomeI [OF assms this] Some v have "snd entry = (n, seen)" by simp
        with entry have "entry = (k, n, seen)" by simp
        with True show ?thesis by simp
      qed
    qed
    with Some v True show ?thesis
      by (simp cong: filter_cong)
  qed
qed

lemma sweepSlave_active:
  assumes "distinct (map fst (slaves (fst acc)))"
  shows "activeSlaveIds (slaves (fst (sweepSlave now k acc))) now =
           activeSlaveIds (slaves (fst acc)) now"
proof -
  have "distinct (map fst (registry (slaves (fst acc))))"
    using assms by (simp add: keys_registry)
  from sweep_step_active [OF this, where now = now and k = k] show ?thesis
    by (simp add: activeSlaveIds_registry sweepSlave_registry)
qed

lemma sweepSlave_distinct:
  assumes "distinct (map fst (slaves (fst acc)))"
  shows "distinct (map fst (slaves (fst (sweepSlave now k acc))))"
proof -
  have "distinct (map fst (registry (slaves (fst acc))))"
    using assms by (simp add: keys_registry)
  from sweep_step_distinct [OF this, where k = k and now = now]
  have "distinct (map fst (registry (slaves (fst (sweepSlave now k acc)))))"
    by (simp add: sweepSlave_registry)
  then show ?thesis by (simp add: keys_registry)
qed

lemma sweepSlave_inactive:
  assumes "x \<noteq> k" and "x \<notin> set (activeSlaveIds (slaves (fst acc)) now)"
  shows "map_of (slaves (fst (sweepSlave now k acc))) x = map_of (slaves (fst acc)) x"
proof (cases "map_of (slaves (fst acc)) k")
  case None
  then show ?thesis by (simp add: sweepSlave_skip)
next
  case (Some info)
  show ?thesis
  proof (cases "60000 < now - lastSeen info")
    case False
    with Some show ?thesis by (simp add: sweepSlave_skip)
  next
    case True
    let ?start = "(fst acc, fst (snd acc) @ [WarnSlaveDown k], snd (snd acc))"
    have "x \<notin> set (activeSlaveIds (slaves (fst ?start)) now)"
      using assms(2) by simp
    from fold_distributeKeySync_inactive [OF this, of "slave_services info"]
    have "map_of (slaves (fst (fold (distributeKeySync now) (slave_services info) ?start))) x =
            map_of (slaves (fst acc)) x"
      by simp
    with sweepSlave_stale [OF Some True refl] assms(1) show ?thesis
      by simp
  qed
qed

lemma sweepSlave_preserves:
  assumes "redistributed active (fst acc) key"
    and "activeSlaveIds (slaves (fst acc)) now = active" and "active \<noteq> []"
    and "distinct active"
  shows "redistributed active (fst (sweepSlave now k acc)) key"
proof (cases "map_of (slaves (fst acc)) k")
  case None
  with assms(1) show ?thesis by (simp add: sweepSlave_skip)
next
  case (Some info)
  show ?thesis
  proof (cases "60000 < now - lastSeen info")
    case False
    with Some assms(1) show ?thesis by (simp add: sweepSlave_skip)
  next
    case True
    let ?start = "(fst acc, fst (snd acc) @ [WarnSlaveDown k], snd (snd acc))"
    have "redistributed active (fst ?start) key"
      and "activeSlaveIds (slaves (fst ?start)) now = active"
      using assms(1,2) by simp_all
    from fold_distributeKeySync_preserves [OF this assms(3,4), of "slave_services info"]
    have "redistributed active
            (fst (fold (distributeKeySync now) (slave_services info) ?start)) key" .
    with sweepSlave_stale [OF Some True refl] show ?thesis
      by (simp add: redistributed_def)
  qed
qed

lemma sweepSlave_establishes:
  assumes "map_of (slaves (fst acc)) k = Some info" and "60000 < now - lastSeen info"
    and "key \<in> set (slave_services info)" and "map_of (services (fst acc)) key \<noteq> None"
    and "activeSlaveIds (slaves (fst acc)) now = active" and "active \<noteq> []"
    and "distinct active"
  shows "redistributed active (fst (sweepSlave now k acc)) key"
proof -
  let ?start = "(fst acc, fst (snd acc) @ [WarnSlaveDown k], snd (snd acc))"
  have "map_of (services (fst ?start)) key \<noteq> None"
    and "activeSlaveIds (slaves (fst ?start)) now = active"
    using assms(4,5) by simp_all
  from fold_distributeKeySync_establishes [OF assms(3) this assms(6,7)]
  have "redistributed active
          (fst (fold (distributeKeySync now) (slave_services info) ?start)) key" .
  with sweepSlave_stale [OF assms(1,2) refl] show ?thesis
    by (simp add: redistributed_def)
qed

lemma stale_not_active:
  assumes "distinct (map fst slaveMap)" and "map_of slaveMap k = Some info"
    and "\<not> now - lastSeen info < 60000"
  shows "k \<notin> set (activeSlaveIds slaveMap now)"
proof
  assume "k \<in> set (activeSlaveIds slaveMap now)"
  then obtain slave where mem: "(k, slave) \<in> set slaveMap" and fresh: "now - lastSeen slave < 60000"
    by (auto simp: activeSlaveIds_def)
  from map_of_is_SomeI [OF assms(1) mem] assms(2) have "slave = info" by simp
  with fresh assms(3) show False by simp
qed

lemma fold_sweepSlave_preserves:
  assumes "redistributed active (fst acc) key"
    and "activeSlaveIds (slaves (fst acc)) now = active" and "active \<noteq> []"
    and "distinct (map fst (slaves (fst acc)))"
  shows "redistributed active (fst (fold (sweepSlave now) ks acc)) key"
  using assms
proof (induction ks arbitrary: acc)
  case Nil
  then show ?case by simp
next
  case (Cons k ks)
  have da: "distinct active"
    using distinct_activeSlaveIds [OF Cons.prems(4), of now] Cons.prems(2) by simp
  have step: "redistributed active (fst (sweepSlave now k acc)) key"
    by (rule sweepSlave_preserves [OF Cons.prems(1,2,3) da])
  have active1: "activeSlaveIds (slaves (fst (sweepSlave now k acc))) now = active"
    using sweepSlave_active [OF Cons.prems(4)] Cons.prems(2) by simp
  have distinct1: "distinct (map fst (slaves (fst (sweepSlave now k acc))))"
    by (rule sweepSlave_distinct [OF Cons.prems(4)])
  from Cons.IH [OF step active1 Cons.prems(3) distinct1] show ?case by simp
qed

lemma fold_sweepSlave_establishes:
  assumes "k \<in> set ks" and "map_of (slaves (fst acc)) k = Some info"
    and "60000 < now - lastSeen info"
    and "key \<in> set (slave_services info)" and "map_of (services (fst acc)) key \<noteq> None"
    and "activeSlaveIds (slaves (fst acc)) now = active" and "active \<noteq> []"
    and "distinct (map fst (slaves (fst acc)))"
  shows "redistributed active (fst (fold (sweepSlave now) ks acc)) key"
  using assms
proof (induction ks arbitrary: acc)
  case Nil
  then show ?case by simp
next
  case (Cons k' ks)
  have da: "distinct active"
    using distinct_activeSlaveIds [OF Cons.prems(8), of now] Cons.prems(6) by simp
  have active1: "activeSlaveIds (slaves (fst (sweepSlave now k' acc))) now = active"
    using sweepSlave_active [OF Cons.prems(8)] Cons.prems(6) by simp
  have distinct1: "distinct (map fst (slaves (fst (sweepSlave now k' acc))))"
    by (rule sweepSlave_distinct [OF Cons.prems(8)])
  show ?case
  proof (cases "k' = k")
    case True
    have "redistributed active (fst (sweepSlave now k acc)) key"
      by (rule sweepSlave_establishes [OF Cons.prems(2,3,4,5,6,7) da])
    with True have "redistributed active (fst (sweepSlave now k' acc)) key" by simp
    from fold_sweepSlave_preserves [OF this active1 Cons.prems(7) distinct1]
    show ?thesis by simp
  next
    case False
    with Cons.prems(1) have mem: "k \<in> set ks" by simp
    have "k \<notin> set (activeSlaveIds (slaves (fst acc)) now)"
      using stale_not_active [OF Cons.prems(8) Cons.prems(2)] Cons.prems(3) by simp
    with False have look: "map_of (slaves (fst (sweepSlave now k' acc))) k = Some info"
      using Cons.prems(2) by (simp add: sweepSlave_inactive)
    have known: "map_of (services (fst (sweepSlave now k' acc))) key \<noteq> None"
      using Cons.prems(5) by (simp add: sweepSlave_known)
    from Cons.IH [OF mem look Cons.prems(3,4) known active1 Cons.prems(7) distinct1]
    show ?thesis by simp
  qed
qed

lemma checkSlaveHealth_redistributes:
  assumes "distinct (map fst (slaves st))" and "map_of (slaves st) slaveId = Some info"
    and "60000 < now - lastSeen info" and "activeSlaveIds (slaves st) now \<noteq> []"
    and "key \<in> set (slave_services info)" and "map_of (services st) key \<noteq> None"
  shows "redistributed (activeSlaveIds (slaves st) now) (fst (checkSlaveHealth st now)) key"
proof -
  have mem: "slaveId \<in> set (map fst (slaves st))"
    using assms(2) by (metis map_of_eq_None_iff option.distinct(1) set_map)
  have "redistributed (activeSlaveIds (slaves st) now)
          (fst (fold (sweepSlave now) (map fst (slaves st)) (st, [], []))) key"
    by (rule fold_sweepSlave_establishes [OF mem, where info = info])
       (use assms in simp_all)
  then show ?thesis by (simp add: checkSlaveHealth_def)
qed

lemma exPair_value:
  "exPair =
     \<lparr>services = [(''s1'', (newService exConfig ''s1'' 1000)
                               \<lparr>assignedSlaves := [''slave1'', ''slave2'']\<rparr>)],
      slaves = [(''slave1'', \<lparr>slave_name = ''one'', lastSeen = 0, slave_services = [''s1'']\<rparr>),
                (''slave2'', \<lparr>slave_name = ''two'', lastSeen = 250000,
                              slave_services = [''s1'']\<rparr>)]\<rparr>"
  by code_simp

lemma exPair_sweep_stale:
  "checkSlaveHealth exPair 290000 =
     (\<lparr>services = [(''s1'', (newService exConfig ''s1'' 1000)
                                \<lparr>assignedSlaves := [''slave2'']\<rparr>)],
       slaves = [(''slave1'', \<lparr>slave_name = ''one'', lastSeen = 0, slave_services = [''s1'']\<rparr>),
                 (''slave2'', \<lparr>slave_name = ''two'', lastSeen = 250000,
                               slave_services = [''s1'']\<rparr>)]\<rparr>,
      [WarnSlaveDown ''slave1'', NotifyAssign ''slave2'' ''s1'', NotifyUnassign ''slave1'' ''s1''],
      [\<lparr>p_service = ''s1'', p_assigned = [''slave2''], p_slaveId = ''slave1'',
        p_slave = \<lparr>slave_name = ''one'', lastSeen = 0, slave_services = [''s1'']\<rparr>,
        p_rest = [''slave2'']\<rparr>])"
  by code_simp

lemma exPair_sweep_evict:
  "checkSlaveHealth exPair 300001 =
     (\<lparr>services = [(''s1'', (newService exConfig ''s1'' 1000)
                                \<lparr>assignedSlaves := [''slave2'']\<rparr>)],
       slaves = [(''slave2'', \<lparr>slave_name = ''two'', lastSeen = 250000,
                               slave_services = [''s1'']\<rparr>)]\<rparr>,
      [WarnSlaveDown ''slave1'', NotifyAssign ''slave2'' ''s1'', NotifyUnassign ''slave1'' ''s1'',
       WarnSlaveRemoved ''slave1'', AlertSlaveOffline ''slave1'' ''one''],
      [\<lparr>p_service = ''s1'', p_assigned = [''slave2''], p_slaveId = ''slave1'',
        p_slave = \<lparr>slave_name = ''one'', lastSeen = 0, slave_services = [''s1'']\<rparr>,
        p_rest = [''slave2'']\<rparr>])"
  by code_simp

text \<open>
  Claim C7, amended. Let a slave be in the table when the sweep starts. When the sweep
  returns, the slave is absent from the table, and the offline alert for it has been
  dispatched, exactly when its heartbeat age is strictly more than 300000 ms. The warning
  for it has been logged exactly when the age is strictly more than 60000 ms. A slave
  aged at most 300000 ms is still in the table under its name and heartbeat time. If the
  slave is aged more than 60000 ms and some slave is active (aged less than 60000 ms),
  every service the slave claims that exists is, when the sweep returns, assigned to
  active slaves only, hence not to this slave, and to at least as many of them as the
  smaller of 3 and the number of active slaves. (The calls of \<^verbatim>\<open>distributeService\<close>
  that the sweep leaves suspended are in the third component of its result; what they do
  to the table later is not part of this statement.)
\<close>

theorem health_sweep_eviction:
  assumes "distinct (map fst (slaves st))" and "map_of (slaves st) slaveId = Some info"
  shows "(map_of (slaves (fst (checkSlaveHealth st now))) slaveId = None \<longleftrightarrow>
            300000 < now - lastSeen info)
       \<and> (AlertSlaveOffline slaveId (slave_name info) \<in> set (fst (snd (checkSlaveHealth st now)))
            \<longleftrightarrow> 300000 < now - lastSeen info)
       \<and> (WarnSlaveDown slaveId \<in> set (fst (snd (checkSlaveHealth st now))) \<longleftrightarrow>
            60000 < now - lastSeen info)
       \<and> (now - lastSeen info \<le> 300000 \<longrightarrow>
            map_of (registry (slaves (fst (checkSlaveHealth st now)))) slaveId =
              Some (slave_name info, lastSeen info))
       \<and> (60000 < now - lastSeen info \<and> activeSlaveIds (slaves st) now \<noteq> [] \<longrightarrow>
            (\<forall>key \<in> set (slave_services info).
               map_of (services st) key \<noteq> None \<longrightarrow>
               (\<exists>service'.
                  map_of (services (fst (checkSlaveHealth st now))) key = Some service'
                  \<and> set (assignedSlaves service') \<subseteq> set (activeSlaveIds (slaves st) now)
                  \<and> slaveId \<notin> set (assignedSlaves service')
                  \<and> min 3 (length (activeSlaveIds (slaves st) now))
                       \<le> length (assignedSlaves service'))))"
proof -
  let ?st' = "fst (checkSlaveHealth st now)"
  let ?evs' = "fst (snd (checkSlaveHealth st now))"
  let ?reg = "registry (slaves st)"
  let ?active = "activeSlaveIds (slaves st) now"
  have dreg: "distinct (map fst ?reg)"
    using assms(1) by (simp add: keys_registry)
  have look: "map_of ?reg slaveId = Some (slave_name info, lastSeen info)"
    using assms(2) by (simp add: map_of_registry)
  have key: "slaveId \<in> set (map fst (slaves st))"
    using assms(2) by (metis map_of_eq_None_iff option.distinct(1) set_map)
  have reg': "map_of (registry (slaves ?st')) slaveId =
                (if 300000 < now - lastSeen info then None
                 else Some (slave_name info, lastSeen info))"
    unfolding checkSlaveHealth_summary(1) [OF assms(1)]
    by (simp add: map_of_filter_distinct [OF dreg look])
  have gone: "map_of (slaves ?st') slaveId = None \<longleftrightarrow> 300000 < now - lastSeen info"
    using reg' by (auto simp: map_of_registry split: if_splits)
  have sweep_set: "\<And>e. isSweepEvent e \<Longrightarrow>
      e \<in> set ?evs' \<longleftrightarrow> (\<exists>k' \<in> set (map fst (slaves st)). e \<in> set (sweepEvents now ?reg k'))"
  proof -
    fix e assume "isSweepEvent e"
    then have "e \<in> set ?evs' \<longleftrightarrow> e \<in> set (filter isSweepEvent ?evs')" by simp
    also have "\<dots> \<longleftrightarrow> (\<exists>k' \<in> set (map fst (slaves st)). e \<in> set (sweepEvents now ?reg k'))"
      unfolding checkSlaveHealth_summary(2) [OF assms(1)] by auto
    finally show "e \<in> set ?evs' \<longleftrightarrow>
        (\<exists>k' \<in> set (map fst (slaves st)). e \<in> set (sweepEvents now ?reg k'))" .
  qed
  have alert: "AlertSlaveOffline slaveId (slave_name info) \<in> set ?evs' \<longleftrightarrow>
                 300000 < now - lastSeen info"
    using key look
    by (subst sweep_set) (auto simp: isSweepEvent_def offline_in_sweepEvents)
  have warn: "WarnSlaveDown slaveId \<in> set ?evs' \<longleftrightarrow> 60000 < now - lastSeen info"
    using key look
    by (subst sweep_set) (auto simp: isSweepEvent_def down_in_sweepEvents)
  have kept: "now - lastSeen info \<le> 300000 \<longrightarrow>
      map_of (registry (slaves ?st')) slaveId = Some (slave_name info, lastSeen info)"
    using reg' by simp
  have moved: "60000 < now - lastSeen info \<and> ?active \<noteq> [] \<longrightarrow>
      (\<forall>key \<in> set (slave_services info).
         map_of (services st) key \<noteq> None \<longrightarrow>
         (\<exists>service'.
            map_of (services ?st') key = Some service'
            \<and> set (assignedSlaves service') \<subseteq> set ?active
            \<and> slaveId \<notin> set (assignedSlaves service')
            \<and> min 3 (length ?active) \<le> length (assignedSlaves service')))"
  proof (intro impI ballI)
    fix key
    assume stale: "60000 < now - lastSeen info \<and> ?active \<noteq> []"
      and claimed: "key \<in> set (slave_services info)"
      and known: "map_of (services st) key \<noteq> None"
    from stale have age: "60000 < now - lastSeen info" and some: "?active \<noteq> []" by simp_all
    have "redistributed ?active ?st' key"
      by (rule checkSlaveHealth_redistributes [OF assms age some claimed known])
    then obtain service' where stored: "map_of (services ?st') key = Some service'"
      and within: "set (assignedSlaves service') \<subseteq> set ?active"
      and enough: "min 3 (length ?active) \<le> length (assignedSlaves service')"
      by (auto simp: redistributed_def split: option.splits)
    have "slaveId \<notin> set ?active"
      using stale_not_active [OF assms] age by simp
    with within have "slaveId \<notin> set (assignedSlaves service')" by auto
    with stored within enough
    show "\<exists>service'.
            map_of (services ?st') key = Some service'
            \<and> set (assignedSlaves service') \<subseteq> set ?active
            \<and> slaveId \<notin> set (assignedSlaves service')
            \<and> min 3 (length ?active) \<le> length (assignedSlaves service')"
      by blast
  qed
  from gone alert warn kept moved show ?thesis
    by blast
qed

theorem health_sweep_eviction_witness:
  "distinct (map fst (slaves exPair))
   \<and> map_of (slaves exPair) ''slave1'' =
      Some \<lparr>slave_name = ''one'', lastSeen = 0, slave_services = [''s1'']\<rparr>
   \<and> activeSlaveIds (slaves exPair) 290000 = [''slave2'']
   \<and> map_of (services exPair) ''s1'' \<noteq> None
   \<and> map_of (slaves (fst (checkSlaveHealth exPair 300001))) ''slave1'' = None
   \<and> AlertSlaveOffline ''slave1'' ''one'' \<in> set (fst (snd (checkSlaveHealth exPair 300001)))
   \<and> WarnSlaveDown ''slave1'' \<in> set (fst (snd (checkSlaveHealth exPair 290000)))
   \<and> map_of (registry (slaves (fst (checkSlaveHealth exPair 290000)))) ''slave1'' =
      Some (''one'', 0)
   \<and> (\<exists>service'.
        map_of (services (fst (checkSlaveHealth exPair 290000))) ''s1'' = Some service'
        \<and> set (assignedSlaves service') \<subseteq> {''slave2''}
        \<and> ''slave1'' \<notin> set (assignedSlaves service')
        \<and> 1 \<le> length (assignedSlaves service'))"
proof -
  have a: "distinct (map fst (slaves exPair))"
    by (simp add: exPair_value)
  have b: "map_of (slaves exPair) ''slave1'' =
      Some \<lparr>slave_name = ''one'', lastSeen = 0, slave_services = [''s1'']\<rparr>"
    by (simp add: exPair_value)
  have act: "activeSlaveIds (slaves exPair) 290000 = [''slave2'']"
    by (simp add: exPair_value activeSlaveIds_def)
  have known: "map_of (services exPair) ''s1'' \<noteq> None"
    by (simp add: exPair_value)
  from health_sweep_eviction [OF a b, where now = 300001]
  have c: "map_of (slaves (fst (checkSlaveHealth exPair 300001))) ''slave1'' = None
     \<and> AlertSlaveOffline ''slave1'' ''one'' \<in> set (fst (snd (checkSlaveHealth exPair 300001)))"
    by simp
  from health_sweep_eviction [OF a b, where now = 290000] act known
  have d: "WarnSlaveDown ''slave1'' \<in> set (fst (snd (checkSlaveHealth exPair 290000)))
     \<and> map_of (registry (slaves (fst (checkSlaveHealth exPair 290000)))) ''slave1'' =
        Some (''one'', 0)
     \<and> (\<exists>service'.
        map_of (services (fst (checkSlaveHealth exPair 290000))) ''s1'' = Some service'
        \<and> set (assignedSlaves service') \<subseteq> {''slave2''}
        \<and> ''slave1'' \<notin> set (assignedSlaves service')
        \<and> 1 \<le> length (assignedSlaves service'))"
    by simp
  from a b act known c d show ?thesis by blast
qed

text \<open>
  Claim C7 as stated fails in four ways. A slave whose heartbeat age is exactly
  300000 ms is at least 300 seconds old, yet the sweep keeps it and sends no offline
  alert. A slave aged exactly 60000 ms is in the range from 60 to 300 seconds, yet the
  sweep logs no warning for it. A slave aged 61000 ms is warned about, but when no slave
  is active its service keeps the assignment it had, to that slave. And the slave of
  \<open>exPair\<close> that the sweep at time 300001 removes does not stay removed: the call of
  \<^verbatim>\<open>distributeService\<close> that the sweep started without awaiting it holds the slave's
  object, and when its DELETE request has settled without throwing it stores the object
  under the slave's key again, with the heartbeat time of 0 and an empty list of
  services.
\<close>

theorem health_sweep_boundary_counterexample:
  "map_of (slaves exAssigned) ''slave1'' =
      Some \<lparr>slave_name = ''one'', lastSeen = 0, slave_services = [''s1'']\<rparr>
   \<and> 300000 \<le> 300000 - lastSeen \<lparr>slave_name = ''one'', lastSeen = 0, slave_services = [''s1'']\<rparr>
   \<and> map_of (slaves (fst (checkSlaveHealth exAssigned 300000))) ''slave1'' =
      Some \<lparr>slave_name = ''one'', lastSeen = 0, slave_services = [''s1'']\<rparr>
   \<and> AlertSlaveOffline ''slave1'' ''one'' \<notin> set (fst (snd (checkSlaveHealth exAssigned 300000)))
   \<and> 60000 \<le> 60000 - lastSeen \<lparr>slave_name = ''one'', lastSeen = 0, slave_services = [''s1'']\<rparr>
   \<and> fst (snd (checkSlaveHealth exAssigned 60000)) = []
   \<and> WarnSlaveDown ''slave1'' \<in> set (fst (snd (checkSlaveHealth exAssigned 61000)))
   \<and> map (\<lambda>(key, service). (key, assignedSlaves service))
        (services (fst (checkSlaveHealth exAssigned 61000))) = [(''s1'', [''slave1''])]
   \<and> map_of (slaves exPair) ''slave1'' =
      Some \<lparr>slave_name = ''one'', lastSeen = 0, slave_services = [''s1'']\<rparr>
   \<and> map_of (slaves (fst (checkSlaveHealth exPair 300001))) ''slave1'' = None
   \<and> map (\<lambda>p. map_of (resumeDistribute allOk p (slaves (fst (checkSlaveHealth exPair 300001))))
                ''slave1'')
        (snd (snd (checkSlaveHealth exPair 300001))) =
      [Some \<lparr>slave_name = ''one'', lastSeen = 0, slave_services = []\<rparr>]"
  by code_simp

end
